theory Spec2Isabelle
  imports Main
begin

section \<open>JavaScript values, documents and dependency expressions\<close>

text \<open>
  The form layout engine (\<^verbatim>\<open>frappe.ui.form.Layout\<close>, \<^verbatim>\<open>Section\<close>, \<^verbatim>\<open>Column\<close>) reads
  document values and field descriptors through JavaScript truthiness. The values a
  document can hold are modelled by a small datatype, \<open>Obj\<close> standing for any object or
  function that is not an array. A document is a plain object: its own properties are a
  partial map from property names to values, and everything else it inherits from
  \<^verbatim>\<open>Object.prototype\<close>.
\<close>

datatype js_value =
  Undefined | Null | Bool bool | Num int | Str string | Arr "js_value list" | Obj

text \<open>\<^verbatim>\<open>!!value\<close>\<close>

fun truthy :: "js_value \<Rightarrow> bool" where
  "truthy Undefined = False"
| "truthy Null = False"
| "truthy (Bool b) = b"
| "truthy (Num n) = (n \<noteq> 0)"
| "truthy (Str s) = (s \<noteq> [])"
| "truthy (Arr xs) = True"
| "truthy Obj = True"

text \<open>\<^verbatim>\<open>value == null\<close>\<close>

fun is_nullish :: "js_value \<Rightarrow> bool" where
  "is_nullish Undefined = True"
| "is_nullish Null = True"
| "is_nullish (Bool b) = False"
| "is_nullish (Num n) = False"
| "is_nullish (Str s) = False"
| "is_nullish (Arr xs) = False"
| "is_nullish Obj = False"

type_synonym document = "string \<Rightarrow> js_value option"

text \<open>
  The property names every plain object inherits from \<^verbatim>\<open>Object.prototype\<close>: its methods,
  the \<^verbatim>\<open>constructor\<close> and the accessor \<^verbatim>\<open>__proto__\<close>. Each reads as a function or an object.
\<close>

definition object_prototype_members :: "string list" where
  "object_prototype_members =
     [''constructor'', ''hasOwnProperty'', ''isPrototypeOf'', ''propertyIsEnumerable'',
      ''toLocaleString'', ''toString'', ''valueOf'', ''__proto__'',
      ''__defineGetter__'', ''__defineSetter__'', ''__lookupGetter__'', ''__lookupSetter__'']"

text \<open>
  \<^verbatim>\<open>doc[key]\<close>: the document's own property when it has one, else the inherited member of
  that name, else \<^verbatim>\<open>undefined\<close>.
\<close>

definition doc_get :: "document \<Rightarrow> string \<Rightarrow> js_value" where
  "doc_get d k =
     (case d k of
        Some v \<Rightarrow> v
      | None \<Rightarrow> if k \<in> set object_prototype_members then Obj else Undefined)"

text \<open>
  A property name that may be \<^verbatim>\<open>undefined\<close> (a descriptor without \<^verbatim>\<open>fieldname\<close>), used
  as an object key.
\<close>

definition prop_key :: "string option \<Rightarrow> string" where
  "prop_key k = (case k of None \<Rightarrow> ''undefined'' | Some s \<Rightarrow> s)"

text \<open>
  A dependency expression is a boolean, a function of the document, or a string.
\<close>

datatype expression = ExprBool bool | ExprFun "document \<Rightarrow> js_value" | ExprStr string

text \<open>
  Truthiness of a descriptor property holding an expression, as in
  \<^verbatim>\<open>if (f.df.depends_on)\<close>: absent, \<^verbatim>\<open>false\<close> and the empty string are falsy.
\<close>

fun expr_set :: "expression option \<Rightarrow> bool" where
  "expr_set None = False"
| "expr_set (Some (ExprBool b)) = b"
| "expr_set (Some (ExprFun fn)) = True"
| "expr_set (Some (ExprStr s)) = (s \<noteq> [])"

text \<open>\<^verbatim>\<open>String.prototype.includes\<close>\<close>

fun starts_with :: "string \<Rightarrow> string \<Rightarrow> bool" where
  "starts_with s [] = True"
| "starts_with [] (c # cs) = False"
| "starts_with (x # xs) (c # cs) = (x = c \<and> starts_with xs cs)"

fun str_includes :: "string \<Rightarrow> string \<Rightarrow> bool" where
  "str_includes [] sub = (sub = [])"
| "str_includes (x # xs) sub = (starts_with (x # xs) sub \<or> str_includes xs sub)"

section \<open>Field descriptors, controls, sections and the layout\<close>

record docfield =
  fieldname :: "string option"
  fieldtype :: string
  label :: string
  reqd :: bool
  read_only :: bool
  hidden :: bool
  hidden_due_to_dependency :: bool
  permlevel :: nat
  depends_on :: "expression option"
  mandatory_depends_on :: "expression option"
  read_only_depends_on :: "expression option"
  collapsible :: bool
  collapsible_depends_on :: "expression option"

text \<open>The empty descriptor \<^verbatim>\<open>{}\<close> of a section or column made without one.\<close>

definition empty_df :: docfield where
  "empty_df = \<lparr> fieldname = None, fieldtype = [], label = [], reqd = False,
     read_only = False, hidden = False, hidden_due_to_dependency = False, permlevel = 0,
     depends_on = None, mandatory_depends_on = None, read_only_depends_on = None,
     collapsible = False, collapsible_depends_on = None \<rparr>"

text \<open>
  The owning form, as far as the layout uses it: its document, the permission check
  \<^verbatim>\<open>frm.get_perm(permlevel, "read")\<close> and \<^verbatim>\<open>frm.script_manager.trigger\<close>.
\<close>

record form =
  frm_doc :: "document option"
  get_perm :: "nat \<Rightarrow> bool"
  trigger :: "string \<Rightarrow> string option \<Rightarrow> string option \<Rightarrow> js_value"

text \<open>
  The \<^verbatim>\<open>frappe\<close> namespace, whose code is not part of the layout: \<^verbatim>\<open>frappe.utils.eval\<close>
  (\<open>None\<close> when the evaluation throws), whether \<^verbatim>\<open>frappe.throw\<close> raises after showing its
  message, and the list \<^verbatim>\<open>frappe.model.no_value_type\<close>.
\<close>

record env =
  utils_eval :: "string \<Rightarrow> document \<Rightarrow> document option \<Rightarrow> js_value option"
  throw_raises :: bool
  no_value_type :: "string list"

datatype error = InvalidDependsOn | TypeError

text \<open>
  Controls, sections and columns are objects shared between \<^verbatim>\<open>layout.fields_list\<close>,
  \<^verbatim>\<open>layout.fields_dict\<close>, \<^verbatim>\<open>layout.sections\<close> and \<^verbatim>\<open>section.fields_list\<close>; the model keeps
  them in one store and the lists hold addresses.
\<close>

datatype obj_kind = Control | Section | Column

record field_obj =
  kind :: obj_kind
  df :: docfield
  hide_control :: bool
  refreshes :: nat
  dependencies_clear :: bool
  guardian_has_value :: js_value
  obj_section :: "nat option"
  obj_column :: "nat option"
  sec_fields_list :: "nat list"
  sec_columns :: "nat list"
  has_head :: bool
  body_hide :: bool
  disp_status :: string
  wrapper_visible :: bool
  has_editor :: bool
  has_input :: bool
  grid_rows :: nat

record layout =
  doctype :: "string option"
  docname :: "string option"
  doc :: "document option"
  get_values :: "document option option"
  frm :: "form option"
  is_dialog :: bool
  with_dashboard :: bool
  this_fields :: "docfield list"
  fields_list :: "nat list"
  fields_dict :: "string \<Rightarrow> nat option"
  sections :: "nat list"
  cur_section :: "nat option"
  cur_column :: "nat option"
  folded :: "bool option"
  objs :: "nat \<Rightarrow> field_obj"
  next_obj :: nat

section \<open>The dependency evaluator\<close>

text \<open>
  \<^verbatim>\<open>var doc = this.doc; if (!doc && this.get_values) doc = this.get_values(true);\<close>
\<close>

definition resolve_doc :: "layout \<Rightarrow> document option" where
  "resolve_doc L =
     (case doc L of
        Some d \<Rightarrow> Some d
      | None \<Rightarrow> (case get_values L of None \<Rightarrow> None | Some r \<Rightarrow> r))"

text \<open>\<^verbatim>\<open>var parent = this.frm ? this.frm.doc : this.doc || null;\<close>\<close>

definition parent_binding :: "layout \<Rightarrow> document option" where
  "parent_binding L = (case frm L of Some f \<Rightarrow> frm_doc f | None \<Rightarrow> doc L)"

text \<open>
  \<^verbatim>\<open>parent && parent.istable && expression.includes('is_submittable')\<close>
\<close>

definition submittable_carve_out :: "document option \<Rightarrow> string \<Rightarrow> bool" where
  "submittable_carve_out parent s =
     ((case parent of None \<Rightarrow> False | Some p \<Rightarrow> truthy (doc_get p ''istable''))
      \<and> str_includes s ''is_submittable'')"

text \<open>
  \<^verbatim>\<open>evaluate_depends_on_value\<close>. The result is the returned value, or the error raised
  by \<^verbatim>\<open>frappe.throw\<close> in the \<^verbatim>\<open>catch\<close> block; when \<^verbatim>\<open>frappe.throw\<close> returns, \<^verbatim>\<open>out\<close> is
  still \<^verbatim>\<open>null\<close>.
\<close>

definition evaluate_depends_on_value :: "env \<Rightarrow> layout \<Rightarrow> expression \<Rightarrow> error + js_value" where
  "evaluate_depends_on_value E L expression =
     (case resolve_doc L of
        None \<Rightarrow> Inr Undefined
      | Some d \<Rightarrow>
          (let parent = parent_binding L in
           case expression of
             ExprBool b \<Rightarrow> Inr (Bool b)
           | ExprFun fn \<Rightarrow> Inr (fn d)
           | ExprStr s \<Rightarrow>
               if take 5 s = ''eval:'' then
                 (case utils_eval E (drop 5 s) d parent of
                    Some v \<Rightarrow> Inr (if submittable_carve_out parent s then Bool True else v)
                  | None \<Rightarrow> if throw_raises E then Inl InvalidDependsOn else Inr Null)
               else
                 (case (if take 3 s = ''fn:'' then frm L else None) of
                    Some f \<Rightarrow> Inr (trigger f (drop 3 s) (doctype L) (docname L))
                  | None \<Rightarrow>
                      (let v = doc_get d s in
                       case v of
                         Arr xs \<Rightarrow> Inr (Bool (xs \<noteq> []))
                       | _ \<Rightarrow> Inr (Bool (truthy v))))))"

section \<open>Refreshing one object\<close>

text \<open>
  \<^verbatim>\<open>Section.refresh\<close>: hidden when explicitly hidden or hidden by dependency, or when the
  form has no read permission at the descriptor's level; the wrapper gets or loses the
  class \<^verbatim>\<open>hide-control\<close>.
\<close>

definition hide_of :: "layout \<Rightarrow> docfield \<Rightarrow> bool" where
  "hide_of L d =
     (if hidden d \<or> hidden_due_to_dependency d then True
      else (case frm L of None \<Rightarrow> False | Some f \<Rightarrow> \<not> get_perm f (permlevel d)))"

definition upd_obj :: "layout \<Rightarrow> nat \<Rightarrow> (field_obj \<Rightarrow> field_obj) \<Rightarrow> layout" where
  "upd_obj L a g = L\<lparr> objs := (objs L)(a := g (objs L a)) \<rparr>"

definition section_refresh :: "layout \<Rightarrow> nat \<Rightarrow> layout" where
  "section_refresh L a =
     upd_obj L a (\<lambda>ob. ob\<lparr> hide_control := hide_of L (df ob), refreshes := refreshes ob + 1 \<rparr>)"

text \<open>
  Modelled from the spec: the \<^verbatim>\<open>refresh()\<close> of an input control is widget code outside
  the layout; the spec gives its visibility rule as
  \<^verbatim>\<open>visible = !hidden_static && !hidden_due_to_dependency\<close>, forced hidden when the form lacks
  read access at the field's permission level, which is the rule of \<^verbatim>\<open>Section.refresh\<close>.
\<close>

definition control_refresh :: "layout \<Rightarrow> nat \<Rightarrow> layout" where
  "control_refresh L a =
     upd_obj L a (\<lambda>ob. ob\<lparr> hide_control := hide_of L (df ob), refreshes := refreshes ob + 1 \<rparr>)"

text \<open>\<^verbatim>\<open>Column.refresh\<close> refreshes the column's section.\<close>

definition column_refresh :: "layout \<Rightarrow> nat \<Rightarrow> layout" where
  "column_refresh L a =
     (let L1 = upd_obj L a (\<lambda>ob. ob\<lparr> refreshes := refreshes ob + 1 \<rparr>) in
      case obj_section (objs L1 a) of None \<Rightarrow> L1 | Some s \<Rightarrow> section_refresh L1 s)"

text \<open>\<^verbatim>\<open>fieldobj.refresh()\<close>, dispatched on the class of the object.\<close>

definition obj_refresh :: "layout \<Rightarrow> nat \<Rightarrow> layout" where
  "obj_refresh L a =
     (case kind (objs L a) of
        Control \<Rightarrow> control_refresh L a
      | Section \<Rightarrow> section_refresh L a
      | Column \<Rightarrow> column_refresh L a)"

section \<open>Sections: collapse and missing mandatory fields\<close>

text \<open>
  \<^verbatim>\<open>Section.has_missing_mandatory\<close>. Reading \<^verbatim>\<open>this.layout.doc[...]\<close> without a document
  is a TypeError; the read happens only for a required field.
\<close>

fun missing_mandatory_loop :: "layout \<Rightarrow> nat list \<Rightarrow> error + bool" where
  "missing_mandatory_loop L [] = Inr False"
| "missing_mandatory_loop L (a # rest) =
     (let section_df = df (objs L a) in
      if reqd section_df then
        (case doc L of
           None \<Rightarrow> Inl TypeError
         | Some d \<Rightarrow>
             if is_nullish (doc_get d (prop_key (fieldname section_df))) then Inr True
             else missing_mandatory_loop L rest)
      else missing_mandatory_loop L rest)"

definition has_missing_mandatory :: "layout \<Rightarrow> nat \<Rightarrow> error + bool" where
  "has_missing_mandatory L s = missing_mandatory_loop L (sec_fields_list (objs L s))"

text \<open>
  \<^verbatim>\<open>Section.collapse(hide)\<close>: nothing happens without a head; without an argument the
  state is toggled; the signature fields of the section are refreshed.
\<close>

definition refresh_signature :: "nat \<Rightarrow> layout \<Rightarrow> layout" where
  "refresh_signature f L =
     (if fieldtype (df (objs L f)) = ''Signature'' then obj_refresh L f else L)"

definition collapse :: "layout \<Rightarrow> nat \<Rightarrow> bool option \<Rightarrow> layout" where
  "collapse L s hide_arg =
     (if \<not> has_head (objs L s) then L
      else
        (let hide = (case hide_arg of None \<Rightarrow> \<not> body_hide (objs L s) | Some h \<Rightarrow> h);
             L1 = upd_obj L s (\<lambda>ob. ob\<lparr> body_hide := hide \<rparr>)
         in fold refresh_signature (sec_fields_list (objs L1 s)) L1))"

text \<open>\<^verbatim>\<open>Section.is_collapsed\<close>\<close>

definition is_collapsed :: "layout \<Rightarrow> nat \<Rightarrow> bool" where
  "is_collapsed L s = body_hide (objs L s)"

text \<open>
  The value of a descriptor property holding an expression, when the property is
  truthy: \<^verbatim>\<open>if (df.x) { ... this.evaluate_depends_on_value(df.x) ... }\<close>.
\<close>

definition eval_if_set :: "env \<Rightarrow> layout \<Rightarrow> expression option \<Rightarrow> (error + js_value) option" where
  "eval_if_set E L x =
     (case x of
        None \<Rightarrow> None
      | Some e \<Rightarrow> if expr_set (Some e) then Some (evaluate_depends_on_value E L e) else None)"

text \<open>
  The body of the loop of \<^verbatim>\<open>refresh_section_collapse\<close> for one section: the computed
  \<^verbatim>\<open>collapse\<close> flag, or the error raised on the way.
\<close>

definition computed_collapse :: "env \<Rightarrow> layout \<Rightarrow> nat \<Rightarrow> error + bool" where
  "computed_collapse E L s =
     (case (case eval_if_set E L (collapsible_depends_on (df (objs L s))) of
              None \<Rightarrow> Inr True
            | Some (Inl e) \<Rightarrow> Inl e
            | Some (Inr v) \<Rightarrow> Inr (\<not> truthy v)) of
        Inl e \<Rightarrow> Inl e
      | Inr c \<Rightarrow>
          if c then (case has_missing_mandatory L s of Inl e \<Rightarrow> Inl e | Inr m \<Rightarrow> Inr (\<not> m))
          else Inr False)"

fun refresh_section_collapse_loop :: "env \<Rightarrow> nat list \<Rightarrow> layout \<Rightarrow> error option \<times> layout" where
  "refresh_section_collapse_loop E [] L = (None, L)"
| "refresh_section_collapse_loop E (s # rest) L =
     (if collapsible (df (objs L s)) then
        (case computed_collapse E L s of
           Inl e \<Rightarrow> (Some e, L)
         | Inr c \<Rightarrow> refresh_section_collapse_loop E rest (collapse L s (Some c)))
      else refresh_section_collapse_loop E rest L)"

definition refresh_section_collapse :: "env \<Rightarrow> layout \<Rightarrow> error option \<times> layout" where
  "refresh_section_collapse E L = refresh_section_collapse_loop E (sections L) L"

section \<open>The refresh coordinator\<close>

text \<open>
  Statements that can raise are sequenced on a pair of the pending error and the state
  reached: an exception leaves the mutations made before it in place.
\<close>

definition and_then ::
  "error option \<times> layout \<Rightarrow> (layout \<Rightarrow> error option \<times> layout) \<Rightarrow> error option \<times> layout" where
  "and_then r k = (case r of (None, L) \<Rightarrow> k L | (Some e, L) \<Rightarrow> (Some e, L))"

datatype df_property = Reqd | ReadOnly

definition df_prop :: "df_property \<Rightarrow> docfield \<Rightarrow> bool" where
  "df_prop p d = (case p of Reqd \<Rightarrow> reqd d | ReadOnly \<Rightarrow> read_only d)"

definition df_prop_update :: "df_property \<Rightarrow> bool \<Rightarrow> docfield \<Rightarrow> docfield" where
  "df_prop_update p v d = (case p of Reqd \<Rightarrow> d\<lparr> reqd := v \<rparr> | ReadOnly \<Rightarrow> d\<lparr> read_only := v \<rparr>)"

text \<open>
  Modelled from the spec: \<^verbatim>\<open>set_df_property\<close> belongs to the form (or dialog) object,
  whose code is outside the layout. The spec has \<^verbatim>\<open>required\<close> and \<^verbatim>\<open>read_only\<close> take the
  evaluated value, asks the setter to be a no-op when the value is already correct, and
  pushes the value of a sub-table row field to the per-row field metadata. The setter
  writes the property of the descriptor registered under the fieldname and refreshes
  that field when the value changed.
\<close>

definition set_df_property :: "layout \<Rightarrow> string option \<Rightarrow> df_property \<Rightarrow> bool \<Rightarrow> layout" where
  "set_df_property L fname p v =
     (case fields_dict L (prop_key fname) of
        None \<Rightarrow> L
      | Some a \<Rightarrow>
          if df_prop p (df (objs L a)) = v then L
          else obj_refresh (upd_obj L a (\<lambda>ob. ob\<lparr> df := df_prop_update p v (df ob) \<rparr>)) a)"

text \<open>
  Modelled from the spec: the six-argument call
  \<^verbatim>\<open>set_df_property(parentfield, property, value, parent, fieldname, docname)\<close> writes the
  per-row descriptor of the row's field; its own refresh goes to the parent form's grid.
\<close>

definition set_row_df_property :: "layout \<Rightarrow> string option \<Rightarrow> df_property \<Rightarrow> bool \<Rightarrow> layout" where
  "set_row_df_property L fname p v =
     (case fields_dict L (prop_key fname) of
        None \<Rightarrow> L
      | Some a \<Rightarrow> upd_obj L a (\<lambda>ob. ob\<lparr> df := df_prop_update p v (df ob) \<rparr>))"

text \<open>\<^verbatim>\<open>this.doc && this.doc.parent && this.doc.parentfield\<close>\<close>

definition child_row_doc :: "layout \<Rightarrow> bool" where
  "child_row_doc L =
     (case doc L of
        None \<Rightarrow> False
      | Some d \<Rightarrow> truthy (doc_get d ''parent'') \<and> truthy (doc_get d ''parentfield''))"

text \<open>\<^verbatim>\<open>set_dependant_property\<close>\<close>

definition set_dependant_property ::
  "env \<Rightarrow> layout \<Rightarrow> expression \<Rightarrow> string option \<Rightarrow> df_property \<Rightarrow> error option \<times> layout" where
  "set_dependant_property E L condition fname property =
     (case evaluate_depends_on_value E L condition of
        Inl e \<Rightarrow> (Some e, L)
      | Inr set_property \<Rightarrow>
          (let v = truthy set_property in
           if frm L \<noteq> None \<or> is_dialog L \<or> doctype L = Some ''Web Form'' then
             (if child_row_doc L then
                (let L1 = set_row_df_property L fname property v in
                 case fields_dict L1 (prop_key fname) of
                   None \<Rightarrow> (None, L1)
                 | Some a \<Rightarrow> (None, obj_refresh L1 a))
              else (None, set_df_property L fname property v))
           else (None, L)))"

text \<open>
  The show / hide part of the loop body of \<^verbatim>\<open>refresh_dependency\<close>: the flag is written,
  and the field refreshed, only when it changes.
\<close>

definition show_hide :: "layout \<Rightarrow> nat \<Rightarrow> bool \<Rightarrow> layout" where
  "show_hide L a guardian =
     (if guardian then
        (if hidden_due_to_dependency (df (objs L a)) then
           obj_refresh (upd_obj L a (\<lambda>ob. ob\<lparr> df := (df ob)\<lparr> hidden_due_to_dependency := False \<rparr> \<rparr>)) a
         else L)
      else
        (if \<not> hidden_due_to_dependency (df (objs L a)) then
           obj_refresh (upd_obj L a (\<lambda>ob. ob\<lparr> df := (df ob)\<lparr> hidden_due_to_dependency := True \<rparr> \<rparr>)) a
         else L))"

definition guardian_step :: "env \<Rightarrow> nat \<Rightarrow> layout \<Rightarrow> error option \<times> layout" where
  "guardian_step E a L =
     (let L1 = upd_obj L a (\<lambda>ob. ob\<lparr> guardian_has_value := Bool True \<rparr>) in
      case eval_if_set E L1 (depends_on (df (objs L1 a))) of
        None \<Rightarrow> (None, L1)
      | Some (Inl e) \<Rightarrow> (Some e, L1)
      | Some (Inr v) \<Rightarrow>
          (None, show_hide (upd_obj L1 a (\<lambda>ob. ob\<lparr> guardian_has_value := v \<rparr>)) a (truthy v)))"

definition property_step ::
  "env \<Rightarrow> nat \<Rightarrow> (docfield \<Rightarrow> expression option) \<Rightarrow> df_property \<Rightarrow> layout \<Rightarrow> error option \<times> layout" where
  "property_step E a sel property L =
     (case sel (df (objs L a)) of
        None \<Rightarrow> (None, L)
      | Some condition \<Rightarrow>
          if expr_set (Some condition) then
            set_dependant_property E L condition (fieldname (df (objs L a))) property
          else (None, L))"

definition dependency_step :: "env \<Rightarrow> nat \<Rightarrow> layout \<Rightarrow> error option \<times> layout" where
  "dependency_step E a L =
     and_then (and_then (guardian_step E a L) (property_step E a mandatory_depends_on Reqd))
       (property_step E a read_only_depends_on ReadOnly)"

fun dependency_loop :: "env \<Rightarrow> nat list \<Rightarrow> layout \<Rightarrow> error option \<times> layout" where
  "dependency_loop E [] L = (None, L)"
| "dependency_loop E (a # rest) L = and_then (dependency_step E a L) (dependency_loop E rest)"

definition has_dep_of :: "docfield \<Rightarrow> bool" where
  "has_dep_of d =
     (expr_set (depends_on d) \<or> expr_set (mandatory_depends_on d) \<or> expr_set (read_only_depends_on d))"

definition mark_dependencies_clear :: "layout \<Rightarrow> layout" where
  "mark_dependencies_clear L =
     fold (\<lambda>a M. upd_obj M a (\<lambda>ob. ob\<lparr> dependencies_clear := True \<rparr>)) (fields_list L) L"

text \<open>
  \<^verbatim>\<open>refresh_dependency\<close>: the fields are visited from the last to the first. The closing
  \<^verbatim>\<open>refresh_section_count\<close> only rewrites the section counter labels of the page.
\<close>

definition refresh_dependency :: "env \<Rightarrow> layout \<Rightarrow> error option \<times> layout" where
  "refresh_dependency E L =
     (let L1 = mark_dependencies_clear L in
      if list_ex (\<lambda>a. has_dep_of (df (objs L a))) (fields_list L) then
        dependency_loop E (rev (fields_list L1)) L1
      else (None, L1))"

text \<open>
  \<^verbatim>\<open>attach_doc_and_docfields(refresh)\<close>. The document, doctype, docname and permissions
  bound to each object are read through the layout in this model, and the descriptor
  looked up in the metadata registry is taken to be the one the object holds already.
\<close>

definition attach_doc_and_docfields :: "layout \<Rightarrow> bool \<Rightarrow> layout" where
  "attach_doc_and_docfields L refresh_flag =
     fold (\<lambda>a M. if refresh_flag then obj_refresh M a else M) (fields_list L) L"

text \<open>
  \<^verbatim>\<open>Layout.refresh(doc)\<close>. Three steps touch only the page: \<^verbatim>\<open>refresh_sections\<close> marks
  sections \<^verbatim>\<open>empty-section\<close> or \<^verbatim>\<open>visible-section\<close>, the \<^verbatim>\<open>refresh-fields\<close> event is triggered
  on the form wrapper, and the text of an active numeric input is selected; none of
  them writes state that the functions here read.
\<close>

definition refresh :: "env \<Rightarrow> layout \<Rightarrow> document option \<Rightarrow> error option \<times> layout" where
  "refresh E L new_doc =
     (let L1 = (case new_doc of None \<Rightarrow> L | Some d \<Rightarrow> L\<lparr> doc := Some d \<rparr>);
          L2 = attach_doc_and_docfields L1 True
      in and_then (refresh_dependency E L2)
           (\<lambda>L3. if frm L3 \<noteq> None then refresh_section_collapse E L3 else (None, L3)))"

text \<open>
  What a pass decides for one object: visible (the wrapper is not hidden), required and
  read-only.
\<close>

definition field_state :: "layout \<Rightarrow> nat \<Rightarrow> bool \<times> bool \<times> bool" where
  "field_state L a =
     (\<not> hide_control (objs L a), reqd (df (objs L a)), read_only (df (objs L a)))"

section \<open>Building the layout tree\<close>

text \<open>A new object, before its constructor fills it in.\<close>

definition new_obj :: "obj_kind \<Rightarrow> docfield \<Rightarrow> field_obj" where
  "new_obj k d = \<lparr> kind = k, df = d, hide_control = False, refreshes = 0,
     dependencies_clear = False, guardian_has_value = Undefined, obj_section = None,
     obj_column = None, sec_fields_list = [], sec_columns = [], has_head = False,
     body_hide = False, disp_status = [], wrapper_visible = False, has_editor = False,
     has_input = False, grid_rows = 0 \<rparr>"

definition alloc :: "layout \<Rightarrow> field_obj \<Rightarrow> layout" where
  "alloc L ob = L\<lparr> objs := (objs L)(next_obj L := ob), next_obj := next_obj L + 1 \<rparr>"

text \<open>
  \<^verbatim>\<open>new frappe.ui.form.Section(layout, df)\<close>: the descriptor defaults to \<^verbatim>\<open>{}\<close>, the
  section is pushed on \<^verbatim>\<open>layout.sections\<close>, gets a head when it has a label, and is
  refreshed. The result is the layout and the address of the section.
\<close>

definition Section_init :: "layout \<Rightarrow> docfield option \<Rightarrow> layout \<times> nat" where
  "Section_init L dfo =
     (let d = (case dfo of None \<Rightarrow> empty_df | Some d' \<Rightarrow> d');
          a = next_obj L;
          L1 = alloc L ((new_obj Section d)\<lparr> has_head := (label d \<noteq> []) \<rparr>);
          L2 = L1\<lparr> sections := sections L1 @ [a] \<rparr>
      in (section_refresh L2 a, a))"

text \<open>\<^verbatim>\<open>make_section\<close>\<close>

definition make_section :: "layout \<Rightarrow> docfield option \<Rightarrow> layout" where
  "make_section L dfo =
     (case Section_init L dfo of
        (L1, a) \<Rightarrow>
          (let L2 = L1\<lparr> cur_section := Some a \<rparr>;
               L3 = (case dfo of
                       None \<Rightarrow> L2
                     | Some d \<Rightarrow> L2\<lparr> fields_dict := (fields_dict L2)(prop_key (fieldname d) := Some a),
                                     fields_list := fields_list L2 @ [a] \<rparr>)
           in L3\<lparr> cur_column := None \<rparr>))"

text \<open>
  \<^verbatim>\<open>make_column\<close>, with \<^verbatim>\<open>new frappe.ui.form.Column(this.section, df)\<close>: the column's
  wrapper is appended to the body of the section, which is a TypeError when there is no
  current section; a column with a fieldname is listed among the fields.
\<close>

definition make_column :: "layout \<Rightarrow> docfield option \<Rightarrow> error option \<times> layout" where
  "make_column L dfo =
     (case cur_section L of
        None \<Rightarrow> (Some TypeError, L)
      | Some s \<Rightarrow>
          (let d = (case dfo of None \<Rightarrow> empty_df | Some d' \<Rightarrow> d');
               c = next_obj L;
               L1 = alloc L ((new_obj Column d)\<lparr> obj_section := Some s \<rparr>);
               L2 = upd_obj L1 s (\<lambda>ob. ob\<lparr> sec_columns := sec_columns ob @ [c] \<rparr>);
               L3 = L2\<lparr> cur_column := Some c \<rparr>
           in (None,
               (case dfo of
                  None \<Rightarrow> L3
                | Some d' \<Rightarrow>
                    (case fieldname d' of
                       None \<Rightarrow> L3
                     | Some n \<Rightarrow> if n \<noteq> [] then L3\<lparr> fields_list := fields_list L3 @ [c] \<rparr> else L3)))))"

text \<open>
  \<^verbatim>\<open>make_field\<close> with \<^verbatim>\<open>init_field\<close>: a section and a column are made when there is none,
  the control is created in the current column, listed in the layout and in the current
  section, and points back to its section.
\<close>

definition make_field :: "layout \<Rightarrow> docfield \<Rightarrow> error option \<times> layout" where
  "make_field L d =
     (let L1 = (if cur_section L = None then make_section L None else L) in
      and_then (if cur_column L1 = None then make_column L1 None else (None, L1))
        (\<lambda>L2.
           (let a = next_obj L2;
                L3 = alloc L2 ((new_obj Control d)\<lparr> obj_column := cur_column L2 \<rparr>);
                L4 = L3\<lparr> fields_list := fields_list L3 @ [a],
                         fields_dict := (fields_dict L3)(prop_key (fieldname d) := Some a) \<rparr>
            in case cur_section L4 of
                 None \<Rightarrow> (Some TypeError, L4)
               | Some s \<Rightarrow>
                   (None,
                    upd_obj (upd_obj L4 s (\<lambda>ob. ob\<lparr> sec_fields_list := sec_fields_list ob @ [a] \<rparr>))
                      a (\<lambda>ob. ob\<lparr> obj_section := Some s \<rparr>)))))"

text \<open>\<^verbatim>\<open>make_page\<close>: the fold starts a second page; the next field opens a new section.\<close>

definition make_page :: "layout \<Rightarrow> docfield \<Rightarrow> layout" where
  "make_page L d = L\<lparr> cur_section := None, folded := Some True \<rparr>"

text \<open>\<^verbatim>\<open>no_opening_section\<close>\<close>

definition no_opening_section :: "layout \<Rightarrow> bool" where
  "no_opening_section L =
     (case this_fields L of [] \<Rightarrow> True | d # rest \<Rightarrow> fieldtype d \<noteq> ''Section Break'')"

text \<open>\<^verbatim>\<open>setup_dashboard_section\<close>\<close>

definition setup_dashboard_section :: "layout \<Rightarrow> layout" where
  "setup_dashboard_section L =
     (if no_opening_section L then
        L\<lparr> this_fields := empty_df\<lparr> fieldtype := ''Section Break'' \<rparr> # this_fields L \<rparr>
      else L)"

text \<open>The \<^verbatim>\<open>switch\<close> of \<^verbatim>\<open>render\<close> on the field type of one descriptor.\<close>

definition render_one :: "docfield \<Rightarrow> layout \<Rightarrow> error option \<times> layout" where
  "render_one d L =
     (if fieldtype d = ''Fold'' then (None, make_page L d)
      else if fieldtype d = ''Section Break'' then (None, make_section L (Some d))
      else if fieldtype d = ''Column Break'' then make_column L (Some d)
      else make_field L d)"

fun render_each :: "docfield list \<Rightarrow> layout \<Rightarrow> error option \<times> layout" where
  "render_each [] L = (None, L)"
| "render_each (d # rest) L = and_then (render_one d L) (render_each rest)"

text \<open>
  \<^verbatim>\<open>render(new_fields)\<close>. Without \<^verbatim>\<open>new_fields\<close> the loop runs over \<^verbatim>\<open>this.fields\<close>, the
  array the dashboard set-up has just prepended to.
\<close>

definition render :: "layout \<Rightarrow> docfield list option \<Rightarrow> error option \<times> layout" where
  "render L new_fields =
     (let L1 = L\<lparr> cur_section := None, cur_column := None \<rparr>;
          L2 = (if with_dashboard L1 then setup_dashboard_section L1 else L1);
          fs = (case new_fields of None \<Rightarrow> this_fields L2 | Some nf \<Rightarrow> nf);
          L3 = (if no_opening_section L2 then make_section L2 None else L2)
      in render_each fs L3)"

text \<open>\<^verbatim>\<open>Layout.init\<close> with the options a caller passes.\<close>

definition init_layout :: "string option \<Rightarrow> form option \<Rightarrow> bool \<Rightarrow> docfield list \<Rightarrow> layout" where
  "init_layout dt fr dash fs = \<lparr> doctype = dt, docname = None, doc = None, get_values = None,
     frm = fr, is_dialog = False, with_dashboard = dash, this_fields = fs, fields_list = [],
     fields_dict = (\<lambda>k. None), sections = [], cur_section = None, cur_column = None,
     folded = None, objs = (\<lambda>a. new_obj Control empty_df), next_obj = 0 \<rparr>"

text \<open>
  The tree as the page shows it: for each section its columns, for each column the
  fieldnames of the controls placed in it.
\<close>

definition column_controls :: "layout \<Rightarrow> nat \<Rightarrow> nat \<Rightarrow> string option list" where
  "column_controls L s c =
     map (\<lambda>a. fieldname (df (objs L a)))
       (filter (\<lambda>a. obj_column (objs L a) = Some c) (sec_fields_list (objs L s)))"

definition tree_shape :: "layout \<Rightarrow> string option list list list" where
  "tree_shape L =
     map (\<lambda>s. map (column_controls L s) (sec_columns (objs L s))) (sections L)"

text \<open>
  A section or column is synthesized when it was made without a descriptor: it holds
  the empty descriptor and is not listed among the fields of the layout.
\<close>

definition synthesized :: "layout \<Rightarrow> nat \<Rightarrow> bool" where
  "synthesized L a = (df (objs L a) = empty_df \<and> a \<notin> set (fields_list L))"

section \<open>Tab navigation\<close>

text \<open>
  What \<^verbatim>\<open>handle_tab\<close> does to the page, in order: focus calls and grid calls. The open
  grid row is the answer of \<^verbatim>\<open>get_open_grid_row\<close>, with the fields of its layout (if it
  has one), its index, the number of rows of its grid and the grid's descriptor.
\<close>

datatype tab_effect =
    EditorFocus "string option"
  | InputFocus "string option"
  | PrimaryButtonFocus
  | GridAddNewRow "string option"
  | GridFirstRowToggleView "string option"
  | GridFirstRowShowForm "string option"
  | RowCloseThenHandleTab "string option" "string option"
  | NextRowToggleView nat

record grid_row =
  row_layout_fields :: "field_obj list option"
  row_idx :: nat
  grid_n_rows :: nat
  grid_df_parent :: "string option"
  grid_df_fieldname :: "string option"

text \<open>\<^verbatim>\<open>is_visible\<close>\<close>

definition is_visible :: "field_obj \<Rightarrow> bool" where
  "is_visible field = (disp_status field = ''Write'' \<and> wrapper_visible field)"

text \<open>\<^verbatim>\<open>set_focus\<close>\<close>

definition set_focus :: "field_obj \<Rightarrow> tab_effect list" where
  "set_focus field =
     (if fieldtype (df field) = ''Table'' then
        (if grid_rows field = 0 then [GridAddNewRow (fieldname (df field))]
         else [GridFirstRowToggleView (fieldname (df field))])
      else if has_editor field then [EditorFocus (fieldname (df field))]
      else if has_input field then [InputFocus (fieldname (df field))]
      else [])"

text \<open>
  \<^verbatim>\<open>focus_on_next_field(start_idx, fields)\<close> on the fields after \<^verbatim>\<open>start_idx\<close>: whether it
  returned \<^verbatim>\<open>true\<close>, and what it did.
\<close>

fun focus_on_next_field :: "env \<Rightarrow> field_obj list \<Rightarrow> bool \<times> tab_effect list" where
  "focus_on_next_field E [] = (False, [])"
| "focus_on_next_field E (field # rest) =
     (if is_visible field then
        (if fieldtype (df field) = ''Table'' then
           (True,
            (if grid_rows field = 0 then [GridAddNewRow (fieldname (df field))] else [])
              @ [GridFirstRowShowForm (fieldname (df field))])
         else if fieldtype (df field) \<notin> set (no_value_type E) then
           (True, set_focus field)
         else focus_on_next_field E rest)
      else focus_on_next_field E rest)"

text \<open>
  The \<^verbatim>\<open>for\<close> loop of \<^verbatim>\<open>handle_tab\<close> from the current position on: the effects, and the
  final value of \<^verbatim>\<open>focused\<close>.
\<close>

fun handle_tab_loop ::
  "env \<Rightarrow> string option \<Rightarrow> bool \<Rightarrow> field_obj list \<Rightarrow> field_obj option \<Rightarrow> tab_effect list \<times> bool" where
  "handle_tab_loop E fname shift [] prev = ([], False)"
| "handle_tab_loop E fname shift (field # rest) prev =
     (let next_prev = (if is_visible field then Some field else prev) in
      if fieldname (df field) = fname then
        (if shift then
           ((case prev of Some p \<Rightarrow> set_focus p | None \<Rightarrow> [PrimaryButtonFocus]), False)
         else
           (case (if rest \<noteq> [] then focus_on_next_field E rest else (False, [])) of
              (True, effs) \<Rightarrow> (effs, True)
            | (False, effs) \<Rightarrow> handle_tab_loop E fname shift rest next_prev))
      else handle_tab_loop E fname shift rest next_prev)"

text \<open>
  \<^verbatim>\<open>handle_tab(doctype, fieldname, shift)\<close>: the effects and the returned value
  (\<open>None\<close> for the bare \<^verbatim>\<open>return\<close>, else \<^verbatim>\<open>false\<close>).
\<close>

definition handle_tab ::
  "env \<Rightarrow> layout \<Rightarrow> grid_row option \<Rightarrow> string \<Rightarrow> string option \<Rightarrow> bool
     \<Rightarrow> tab_effect list \<times> bool option" where
  "handle_tab E L open_grid_row dt fname shift =
     (let in_grid = (Some dt \<noteq> doctype L);
          grid_row_v = (if in_grid then open_grid_row else None);
          fields_v = (if in_grid
                      then (case open_grid_row of None \<Rightarrow> None | Some g \<Rightarrow> row_layout_fields g)
                      else Some (map (objs L) (fields_list L)))
      in case fields_v of
           None \<Rightarrow> ([], None)
         | Some fs \<Rightarrow>
             (case handle_tab_loop E fname shift fs None of
                (effs, focused) \<Rightarrow>
                  (effs @
                   (if \<not> focused then
                      (case grid_row_v of
                         Some g \<Rightarrow>
                           (if row_idx g = grid_n_rows g
                            then [RowCloseThenHandleTab (grid_df_parent g) (grid_df_fieldname g)]
                            else [NextRowToggleView (row_idx g)])
                       | None \<Rightarrow> if \<not> shift then [PrimaryButtonFocus] else [])
                    else []),
                   Some False)))"

section \<open>Auxiliary notions\<close>

text \<open>
  Two layouts that differ at most in what is displayed: the classes and collapse state
  of the wrappers and the refresh counters.
\<close>

definition display_only :: "layout \<Rightarrow> layout \<Rightarrow> bool" where
  "display_only L L' \<longleftrightarrow>
     doc L' = doc L \<and> frm L' = frm L \<and> get_values L' = get_values L
     \<and> doctype L' = doctype L \<and> docname L' = docname L \<and> is_dialog L' = is_dialog L
     \<and> fields_list L' = fields_list L \<and> fields_dict L' = fields_dict L
     \<and> sections L' = sections L
     \<and> (\<forall>a. df (objs L' a) = df (objs L a) \<and> kind (objs L' a) = kind (objs L a)
            \<and> sec_fields_list (objs L' a) = sec_fields_list (objs L a)
            \<and> has_head (objs L' a) = has_head (objs L a)
            \<and> obj_section (objs L' a) = obj_section (objs L a))"

text \<open>
  Two layouts that differ at most in the outcomes of a dependency pass (the flags
  \<^verbatim>\<open>hidden_due_to_dependency\<close>, \<^verbatim>\<open>reqd\<close>, \<^verbatim>\<open>read_only\<close>) and in what is displayed.
\<close>

definition df_static :: "docfield \<Rightarrow> docfield" where
  "df_static d = d\<lparr> hidden_due_to_dependency := False, reqd := False, read_only := False \<rparr>"

definition static_eq :: "layout \<Rightarrow> layout \<Rightarrow> bool" where
  "static_eq L L' \<longleftrightarrow>
     doc L' = doc L \<and> frm L' = frm L \<and> get_values L' = get_values L
     \<and> doctype L' = doctype L \<and> docname L' = docname L \<and> is_dialog L' = is_dialog L
     \<and> fields_list L' = fields_list L \<and> fields_dict L' = fields_dict L
     \<and> sections L' = sections L
     \<and> (\<forall>a. df_static (df (objs L' a)) = df_static (df (objs L a))
            \<and> kind (objs L' a) = kind (objs L a)
            \<and> sec_fields_list (objs L' a) = sec_fields_list (objs L a)
            \<and> has_head (objs L' a) = has_head (objs L a)
            \<and> obj_section (objs L' a) = obj_section (objs L a))"

text \<open>The wrapper of an object shows what \<^verbatim>\<open>refresh()\<close> would compute from its descriptor.\<close>

definition consistent :: "layout \<Rightarrow> nat \<Rightarrow> bool" where
  "consistent L b \<longleftrightarrow> hide_control (objs L b) = hide_of L (df (objs L b))"

text \<open>The three stages of \<^verbatim>\<open>refresh\<close>, named.\<close>

definition with_doc :: "layout \<Rightarrow> document option \<Rightarrow> layout" where
  "with_doc L nd = (case nd of None \<Rightarrow> L | Some d \<Rightarrow> L\<lparr> doc := Some d \<rparr>)"

definition attached :: "layout \<Rightarrow> document option \<Rightarrow> layout" where
  "attached L nd = attach_doc_and_docfields (with_doc L nd) True"

text \<open>
  A layout is well formed when a listed object registered under its fieldname is
  registered as itself, and the section of a column is a section. A field is settled
  when the outcomes a dependency pass would compute for it are the ones it has.
\<close>

definition well_formed :: "layout \<Rightarrow> bool" where
  "well_formed L \<longleftrightarrow>
     (\<forall>a\<in>set (fields_list L). \<forall>c.
        fields_dict L (prop_key (fieldname (df (objs L a)))) = Some c \<longrightarrow> c = a)
     \<and> (\<forall>a s. kind (objs L a) = Column \<and> obj_section (objs L a) = Some s
          \<longrightarrow> kind (objs L s) = Section)"


text \<open>What the pass can see of one object: descriptor, wrapper class, refresh count.\<close>

definition shown :: "layout \<Rightarrow> nat \<Rightarrow> docfield \<times> bool \<times> nat" where
  "shown L b = (df (objs L b), hide_control (objs L b), refreshes (objs L b))"

text \<open>
  The descriptor a completed dependency pass leaves for a listed field: each outcome is
  written when its condition is set and evaluates; \<^verbatim>\<open>reqd\<close> and \<^verbatim>\<open>read_only\<close> need a form
  object and the field registered under its name. And the first error one loop body
  raises.
\<close>

definition form_obj :: "layout \<Rightarrow> bool" where
  "form_obj L \<longleftrightarrow> frm L \<noteq> None \<or> is_dialog L \<or> doctype L = Some ''Web Form''"

definition flag_outcome :: "env \<Rightarrow> layout \<Rightarrow> docfield \<Rightarrow> docfield" where
  "flag_outcome E L d =
     (case eval_if_set E L (depends_on d) of
        Some (Inr v) \<Rightarrow> d\<lparr> hidden_due_to_dependency := \<not> truthy v \<rparr>
      | _ \<Rightarrow> d)"

definition prop_outcome ::
  "env \<Rightarrow> layout \<Rightarrow> nat \<Rightarrow> (docfield \<Rightarrow> expression option) \<Rightarrow> df_property \<Rightarrow> docfield \<Rightarrow> docfield" where
  "prop_outcome E L a sel p d =
     (case eval_if_set E L (sel d) of
        Some (Inr v) \<Rightarrow>
          if form_obj L \<and> fields_dict L (prop_key (fieldname d)) = Some a
          then df_prop_update p (truthy v) d else d
      | _ \<Rightarrow> d)"

definition outcome :: "env \<Rightarrow> layout \<Rightarrow> nat \<Rightarrow> docfield \<Rightarrow> docfield" where
  "outcome E L a d =
     prop_outcome E L a read_only_depends_on ReadOnly
       (prop_outcome E L a mandatory_depends_on Reqd (flag_outcome E L d))"

definition step_error :: "env \<Rightarrow> layout \<Rightarrow> nat \<Rightarrow> error option" where
  "step_error E L a =
     (case eval_if_set E L (depends_on (df (objs L a))) of
        Some (Inl e) \<Rightarrow> Some e
      | _ \<Rightarrow>
        (case eval_if_set E L (mandatory_depends_on (df (objs L a))) of
           Some (Inl e) \<Rightarrow> Some e
         | _ \<Rightarrow>
           (case eval_if_set E L (read_only_depends_on (df (objs L a))) of
              Some (Inl e) \<Rightarrow> Some e
            | _ \<Rightarrow> None)))"

section \<open>Vocabulary for the tree that \<^verbatim>\<open>render\<close> builds\<close>

text \<open>
  The three field types the \<^verbatim>\<open>switch\<close> of \<^verbatim>\<open>render\<close> handles itself; every other descriptor
  is passed to \<^verbatim>\<open>make_field\<close>.
\<close>

definition is_break :: "docfield \<Rightarrow> bool" where
  "is_break d \<longleftrightarrow> fieldtype d = ''Fold'' \<or> fieldtype d = ''Section Break''
     \<or> fieldtype d = ''Column Break''"

text \<open>
  The objects the three constructors put into the store: a section as \<^verbatim>\<open>Section.init\<close>
  leaves it after its first refresh, a column of section \<open>s\<close>, a control placed in
  column \<open>c\<close> of section \<open>s\<close>.
\<close>

definition section_obj :: "form option \<Rightarrow> docfield option \<Rightarrow> field_obj" where
  "section_obj fr dfo =
     (let d = (case dfo of None \<Rightarrow> empty_df | Some d' \<Rightarrow> d') in
      (new_obj Section d)\<lparr> has_head := (label d \<noteq> []),
         hide_control := (hidden d \<or> hidden_due_to_dependency d
            \<or> (\<exists>f. fr = Some f \<and> \<not> get_perm f (permlevel d))),
         refreshes := 1 \<rparr>)"

definition column_obj :: "nat \<Rightarrow> docfield option \<Rightarrow> field_obj" where
  "column_obj s dfo =
     (new_obj Column (case dfo of None \<Rightarrow> empty_df | Some d' \<Rightarrow> d'))\<lparr> obj_section := Some s \<rparr>"

definition control_obj :: "nat \<Rightarrow> nat \<Rightarrow> docfield \<Rightarrow> field_obj" where
  "control_obj s c d = (new_obj Control d)\<lparr> obj_column := Some c, obj_section := Some s \<rparr>"

text \<open>\<^verbatim>\<open>make_column\<close> lists a column only when its descriptor has a fieldname.\<close>

definition column_listed :: "docfield option \<Rightarrow> bool" where
  "column_listed dfo \<longleftrightarrow>
     (case dfo of None \<Rightarrow> False
      | Some d \<Rightarrow> (case fieldname d of None \<Rightarrow> False | Some n \<Rightarrow> n \<noteq> []))"

text \<open>The descriptor \<^verbatim>\<open>setup_dashboard_section\<close> prepends: \<^verbatim>\<open>{fieldtype: 'Section Break'}\<close>.\<close>

definition bare_section_break :: docfield where
  "bare_section_break = empty_df\<lparr> fieldtype := ''Section Break'' \<rparr>"

text \<open>
  What building never undoes: addresses are only added, the descriptors of the objects
  already made stay, sections and listed fields are only appended, and what is
  appended to the listed fields is a new address.
\<close>

definition grows :: "layout \<Rightarrow> layout \<Rightarrow> bool" where
  "grows L L1 \<longleftrightarrow>
     next_obj L \<le> next_obj L1
     \<and> (\<forall>a<next_obj L. df (objs L1 a) = df (objs L a))
     \<and> (\<exists>xs. sections L1 = sections L @ xs)
     \<and> (\<exists>ys. fields_list L1 = fields_list L @ ys \<and> (\<forall>y\<in>set ys. next_obj L \<le> y))"

section \<open>Concrete forms\<close>

text \<open>
  A stand-in for \<^verbatim>\<open>frappe.utils.eval\<close> that knows two expression texts and throws on any
  other, a form that grants every permission, and a few documents.
\<close>

definition status_open_expr :: string where
  "status_open_expr = ''eval: doc.status == '' @ [CHR 0x27] @ ''Open'' @ [CHR 0x27]"

definition demo_eval :: "string \<Rightarrow> document \<Rightarrow> document option \<Rightarrow> js_value option" where
  "demo_eval src d p =
     (if src = drop 5 status_open_expr then Some (Bool (doc_get d ''status'' = Str ''Open''))
      else if src = ''doc.is_submittable'' then Some (Bool (truthy (doc_get d ''is_submittable'')))
      else None)"

definition demo_env :: env where
  "demo_env = \<lparr> utils_eval = demo_eval, throw_raises = True,
     no_value_type = [''Section Break'', ''Column Break'', ''HTML'', ''Table'', ''Button'',
       ''Image'', ''Fold'', ''Heading''] \<rparr>"

definition demo_form :: form where
  "demo_form = \<lparr> frm_doc = Some (\<lambda>k. None), get_perm = (\<lambda>n. True),
     trigger = (\<lambda>ev dt dn. Bool (ev = ''validate'')) \<rparr>"

definition open_doc :: document where
  "open_doc = [''status'' \<mapsto> Str ''Open'', ''items'' \<mapsto> Arr [], ''tags'' \<mapsto> Arr [Num 1],
     ''istable'' \<mapsto> Num 1]"


text \<open>A layout bound to \<open>open_doc\<close> inside a form whose own document is empty.\<close>

definition eval_layout :: layout where
  "eval_layout = (init_layout (Some ''Task'') (Some demo_form) False [])\<lparr> doc := Some open_doc \<rparr>"

text \<open>A layout without a form, bound to a document that has \<^verbatim>\<open>istable\<close> set.\<close>

definition table_layout :: layout where
  "table_layout = (init_layout (Some ''DocType'') None False [])\<lparr> doc := Some open_doc \<rparr>"

text \<open>
  A task form: a subject, then a collapsible section "Details" with a required
  priority in its first column and notes in a second column.
\<close>

definition fld :: "string \<Rightarrow> string \<Rightarrow> docfield" where
  "fld n t = empty_df\<lparr> fieldname := Some n, fieldtype := t \<rparr>"

definition task_fields :: "docfield list" where
  "task_fields = [fld ''subject'' ''Data'',
     (fld ''details'' ''Section Break'')\<lparr> label := ''Details'', collapsible := True \<rparr>,
     (fld ''priority'' ''Select'')\<lparr> reqd := True \<rparr>,
     fld ''cb1'' ''Column Break'',
     fld ''notes'' ''Text'']"

definition task_layout :: "document \<Rightarrow> layout" where
  "task_layout d =
     (snd (render (init_layout (Some ''Task'') (Some demo_form) False task_fields) None))
       \<lparr> doc := Some d \<rparr>"

text \<open>A form whose only section is collapsible and has no label, hence no head.\<close>

definition headless_fields :: "docfield list" where
  "headless_fields = [(fld ''more'' ''Section Break'')\<lparr> collapsible := True \<rparr>,
     fld ''remarks'' ''Text'']"

definition headless_layout :: layout where
  "headless_layout =
     (snd (render (init_layout (Some ''Task'') (Some demo_form) False headless_fields) None))
       \<lparr> doc := Some (\<lambda>k. None) \<rparr>"

text \<open>
  Three controls \<open>a\<close>, \<open>b\<close>, \<open>c\<close> in a row, all writable and with an input; \<open>b\<close> is not
  rendered. The type of \<open>c\<close> is left open.
\<close>

definition tab_field :: "string \<Rightarrow> string \<Rightarrow> bool \<Rightarrow> field_obj" where
  "tab_field n t vis =
     (new_obj Control (fld n t))\<lparr> disp_status := ''Write'', wrapper_visible := vis,
        has_input := True \<rparr>"

definition tab_layout :: "string \<Rightarrow> layout" where
  "tab_layout t =
     (init_layout (Some ''Task'') None False [])\<lparr> fields_list := [0, 1, 2],
        objs := (\<lambda>a. if a = 0 then tab_field ''a'' ''Data'' True
                     else if a = 1 then tab_field ''b'' ''Data'' False
                     else tab_field ''c'' t True) \<rparr>"









text \<open>A form with a collapsible section that is open while the document has a status.\<close>

definition more_fields :: "docfield list" where
  "more_fields = [(fld ''more'' ''Section Break'')\<lparr> label := ''More'', collapsible := True,
        collapsible_depends_on := Some (ExprStr ''status'') \<rparr>,
     fld ''notes'' ''Text'']"

definition more_layout :: layout where
  "more_layout = snd (render (init_layout (Some ''Issue'') (Some demo_form) False more_fields) None)"

section \<open>Frame lemmas\<close>

lemmas render_defs = render_def render_one_def make_field_def make_column_def make_section_def
  Section_init_def make_page_def no_opening_section_def setup_dashboard_section_def
  and_then_def alloc_def upd_obj_def section_refresh_def new_obj_def init_layout_def Let_def
  hide_of_def fld_def empty_df_def

lemma display_only_refl: "display_only L L"
  by (simp add: display_only_def)

lemma display_only_trans: "display_only L L1 \<Longrightarrow> display_only L1 L2 \<Longrightarrow> display_only L L2"
  by (simp add: display_only_def)

lemma display_only_obj_refresh: "display_only L (obj_refresh L a)"
  by (simp add: display_only_def obj_refresh_def control_refresh_def section_refresh_def
      column_refresh_def upd_obj_def Let_def split: obj_kind.splits option.splits)

lemma body_hide_obj_refresh: "body_hide (objs (obj_refresh L a) b) = body_hide (objs L b)"
  by (simp add: obj_refresh_def control_refresh_def section_refresh_def
      column_refresh_def upd_obj_def Let_def split: obj_kind.splits option.splits)

lemma fold_refresh_signature:
  "display_only L (fold refresh_signature fs L)
   \<and> (\<forall>b. body_hide (objs (fold refresh_signature fs L) b) = body_hide (objs L b))"
proof (induction fs arbitrary: L)
  case Nil
  show ?case by (simp add: display_only_refl)
next
  case (Cons f fs)
  have 1: "display_only L (refresh_signature f L)"
    by (simp add: refresh_signature_def display_only_obj_refresh display_only_refl)
  have 2: "body_hide (objs (refresh_signature f L) b) = body_hide (objs L b)" for b
    by (simp add: refresh_signature_def body_hide_obj_refresh)
  from Cons.IH [of "refresh_signature f L"] 1 2 show ?case
    by (auto intro: display_only_trans)
qed

lemma display_only_collapse: "display_only L (collapse L s h)"
proof (cases "has_head (objs L s)")
  case False
  then show ?thesis by (simp add: collapse_def display_only_refl)
next
  case True
  have "display_only L (upd_obj L s (\<lambda>ob. ob\<lparr> body_hide := x \<rparr>))" for x
    by (simp add: display_only_def upd_obj_def)
  then show ?thesis
    using True fold_refresh_signature
    by (auto simp: collapse_def Let_def intro: display_only_trans)
qed

lemma body_hide_collapse:
  "body_hide (objs (collapse L s (Some c)) a) =
     (if a = s \<and> has_head (objs L s) then c else body_hide (objs L a))"
  using fold_refresh_signature
  by (simp add: collapse_def Let_def upd_obj_def)

lemma display_only_evaluate:
  "display_only L L' \<Longrightarrow> evaluate_depends_on_value E L' e = evaluate_depends_on_value E L e"
  by (simp add: display_only_def evaluate_depends_on_value_def resolve_doc_def parent_binding_def
      cong: option.case_cong expression.case_cong if_cong)

lemma display_only_missing_loop:
  "display_only L L' \<Longrightarrow> missing_mandatory_loop L' as = missing_mandatory_loop L as"
  by (induction as) (simp_all add: display_only_def Let_def cong: option.case_cong if_cong)

lemma display_only_computed_collapse:
  "display_only L L' \<Longrightarrow> computed_collapse E L' s = computed_collapse E L s"
  using display_only_evaluate [of L L' E] display_only_missing_loop [of L L']
  by (simp add: computed_collapse_def eval_if_set_def has_missing_mandatory_def display_only_def
      cong: option.case_cong sum.case_cong if_cong)

lemma static_eq_refl: "static_eq L L"
  by (simp add: static_eq_def)

lemma static_eq_trans: "static_eq L L1 \<Longrightarrow> static_eq L1 L2 \<Longrightarrow> static_eq L L2"
  by (simp add: static_eq_def)

lemma display_only_static_eq: "display_only L L' \<Longrightarrow> static_eq L L'"
  by (simp add: display_only_def static_eq_def)

lemma static_eq_obj_refresh: "static_eq L (obj_refresh L a)"
  by (rule display_only_static_eq [OF display_only_obj_refresh])

lemma df_static_eqD:
  assumes "df_static d' = df_static d"
  shows "fieldname d' = fieldname d" "fieldtype d' = fieldtype d" "label d' = label d"
    "hidden d' = hidden d" "permlevel d' = permlevel d" "depends_on d' = depends_on d"
    "mandatory_depends_on d' = mandatory_depends_on d"
    "read_only_depends_on d' = read_only_depends_on d" "collapsible d' = collapsible d"
    "collapsible_depends_on d' = collapsible_depends_on d"
proof -
  have "f (df_static d') = f (df_static d)" for f :: "docfield \<Rightarrow> 'a"
    using assms by simp
  note e = this
  show "fieldname d' = fieldname d" using e [of fieldname] by (simp add: df_static_def)
  show "fieldtype d' = fieldtype d" using e [of fieldtype] by (simp add: df_static_def)
  show "label d' = label d" using e [of label] by (simp add: df_static_def)
  show "hidden d' = hidden d" using e [of hidden] by (simp add: df_static_def)
  show "permlevel d' = permlevel d" using e [of permlevel] by (simp add: df_static_def)
  show "depends_on d' = depends_on d" using e [of depends_on] by (simp add: df_static_def)
  show "mandatory_depends_on d' = mandatory_depends_on d"
    using e [of mandatory_depends_on] by (simp add: df_static_def)
  show "read_only_depends_on d' = read_only_depends_on d"
    using e [of read_only_depends_on] by (simp add: df_static_def)
  show "collapsible d' = collapsible d" using e [of collapsible] by (simp add: df_static_def)
  show "collapsible_depends_on d' = collapsible_depends_on d"
    using e [of collapsible_depends_on] by (simp add: df_static_def)
qed

lemma static_eq_df:
  assumes "static_eq L L'"
  shows "fieldname (df (objs L' a)) = fieldname (df (objs L a))"
    "hidden (df (objs L' a)) = hidden (df (objs L a))"
    "permlevel (df (objs L' a)) = permlevel (df (objs L a))"
    "depends_on (df (objs L' a)) = depends_on (df (objs L a))"
    "mandatory_depends_on (df (objs L' a)) = mandatory_depends_on (df (objs L a))"
    "read_only_depends_on (df (objs L' a)) = read_only_depends_on (df (objs L a))"
    "collapsible (df (objs L' a)) = collapsible (df (objs L a))"
    "collapsible_depends_on (df (objs L' a)) = collapsible_depends_on (df (objs L a))"
    "fieldtype (df (objs L' a)) = fieldtype (df (objs L a))"
proof -
  from assms have "df_static (df (objs L' a)) = df_static (df (objs L a))"
    by (simp add: static_eq_def)
  from df_static_eqD [OF this] show
    "fieldname (df (objs L' a)) = fieldname (df (objs L a))"
    "hidden (df (objs L' a)) = hidden (df (objs L a))"
    "permlevel (df (objs L' a)) = permlevel (df (objs L a))"
    "depends_on (df (objs L' a)) = depends_on (df (objs L a))"
    "mandatory_depends_on (df (objs L' a)) = mandatory_depends_on (df (objs L a))"
    "read_only_depends_on (df (objs L' a)) = read_only_depends_on (df (objs L a))"
    "collapsible (df (objs L' a)) = collapsible (df (objs L a))"
    "collapsible_depends_on (df (objs L' a)) = collapsible_depends_on (df (objs L a))"
    "fieldtype (df (objs L' a)) = fieldtype (df (objs L a))"
    by simp_all
qed

lemma static_eq_evaluate:
  "static_eq L L' \<Longrightarrow> evaluate_depends_on_value E L' e = evaluate_depends_on_value E L e"
  by (simp add: static_eq_def evaluate_depends_on_value_def resolve_doc_def parent_binding_def
      cong: option.case_cong expression.case_cong if_cong)

lemma static_eq_eval_if_set:
  "static_eq L L' \<Longrightarrow> eval_if_set E L' x = eval_if_set E L x"
  by (simp add: eval_if_set_def static_eq_evaluate cong: option.case_cong if_cong)

lemma static_eq_hide_of: "static_eq L L' \<Longrightarrow> hide_of L' d = hide_of L d"
  by (simp add: static_eq_def hide_of_def)

lemma section_collapse_loop:
  "refresh_section_collapse_loop E ss L = (None, L') \<Longrightarrow>
   display_only L L'
   \<and> (\<forall>s. body_hide (objs L' s) =
          (if s \<in> set ss \<and> collapsible (df (objs L s)) \<and> has_head (objs L s)
           then computed_collapse E L s = Inr True else body_hide (objs L s)))"
proof (induction ss arbitrary: L)
  case Nil
  then show ?case by (simp add: display_only_refl)
next
  case (Cons s ss)
  show ?case
  proof (cases "collapsible (df (objs L s))")
    case False
    with Cons.prems have "refresh_section_collapse_loop E ss L = (None, L')" by simp
    from Cons.IH [OF this] False show ?thesis by auto
  next
    case True
    with Cons.prems obtain c where c: "computed_collapse E L s = Inr c"
      and rest: "refresh_section_collapse_loop E ss (collapse L s (Some c)) = (None, L')"
      by (auto split: sum.splits)
    let ?M = "collapse L s (Some c)"
    have d: "display_only L ?M" by (rule display_only_collapse)
    have cc: "computed_collapse E ?M t = computed_collapse E L t" for t
      by (rule display_only_computed_collapse [OF d])
    have df: "df (objs ?M t) = df (objs L t)" "has_head (objs ?M t) = has_head (objs L t)" for t
      using d by (simp_all add: display_only_def)
    from Cons.IH [OF rest] have ih: "display_only ?M L'"
      "\<And>t. body_hide (objs L' t) =
          (if t \<in> set ss \<and> collapsible (df (objs L t)) \<and> has_head (objs L t)
           then computed_collapse E L t = Inr True else body_hide (objs ?M t))"
      by (simp_all add: cc df)
    show ?thesis
    proof (intro conjI allI)
      show "display_only L L'" using d ih(1) by (rule display_only_trans)
    next
      fix t
      show "body_hide (objs L' t) =
          (if t \<in> set (s # ss) \<and> collapsible (df (objs L t)) \<and> has_head (objs L t)
           then computed_collapse E L t = Inr True else body_hide (objs L t))"
        using True c by (auto simp: ih(2) body_hide_collapse)
    qed
  qed
qed

lemma section_collapse_completes:
  "(\<forall>s\<in>set ss. collapsible (df (objs L s)) \<longrightarrow> (\<exists>c. computed_collapse E L s = Inr c))
   \<Longrightarrow> fst (refresh_section_collapse_loop E ss L) = None"
proof (induction ss arbitrary: L)
  case Nil
  show ?case by simp
next
  case (Cons s ss)
  show ?case
  proof (cases "collapsible (df (objs L s))")
    case False
    with Cons show ?thesis by simp
  next
    case True
    with Cons.prems obtain c where c: "computed_collapse E L s = Inr c" by auto
    let ?M = "collapse L s (Some c)"
    have d: "display_only L ?M" by (rule display_only_collapse)
    have "\<forall>t\<in>set ss. collapsible (df (objs ?M t)) \<longrightarrow> (\<exists>c. computed_collapse E ?M t = Inr c)"
      using Cons.prems d by (simp add: display_only_computed_collapse [OF d] display_only_def)
    from Cons.IH [OF this] True c show ?thesis by simp
  qed
qed

section \<open>The dependency pass: frames and effects\<close>

lemma df_obj_refresh [simp]: "df (objs (obj_refresh L a) b) = df (objs L b)"
  using display_only_obj_refresh [of L a] by (simp add: display_only_def)

lemma static_eq_upd_obj:
  assumes "df_static (df (g (objs L a))) = df_static (df (objs L a))"
    and "kind (g (objs L a)) = kind (objs L a)"
    and "sec_fields_list (g (objs L a)) = sec_fields_list (objs L a)"
    and "has_head (g (objs L a)) = has_head (objs L a)"
    and "obj_section (g (objs L a)) = obj_section (objs L a)"
  shows "static_eq L (upd_obj L a g)"
  using assms by (simp add: static_eq_def upd_obj_def)

lemma static_eq_show_hide: "static_eq L (show_hide L a g)"
proof -
  have 1: "static_eq L (upd_obj L a (\<lambda>ob. ob\<lparr> df := (df ob)\<lparr> hidden_due_to_dependency := x \<rparr> \<rparr>))" for x
    by (rule static_eq_upd_obj) (simp_all add: df_static_def)
  have 2: "static_eq L (obj_refresh (upd_obj L a (\<lambda>ob. ob\<lparr> df := (df ob)\<lparr> hidden_due_to_dependency := x \<rparr> \<rparr>)) a)" for x
    by (rule static_eq_trans [OF 1 static_eq_obj_refresh])
  show ?thesis
    by (simp add: show_hide_def static_eq_refl 2)
qed

lemma df_show_hide:
  "df (objs (show_hide L a g) b) =
     (if b = a then (df (objs L a))\<lparr> hidden_due_to_dependency := \<not> g \<rparr> else df (objs L b))"
  by (auto simp: show_hide_def upd_obj_def)

lemma static_eq_set_df_property: "static_eq L (set_df_property L n p v)"
proof -
  have 1: "static_eq L (upd_obj L a (\<lambda>ob. ob\<lparr> df := df_prop_update p v (df ob) \<rparr>))" for a
    by (rule static_eq_upd_obj) (simp_all add: df_static_def df_prop_update_def split: df_property.splits)
  have 2: "static_eq L (obj_refresh (upd_obj L a (\<lambda>ob. ob\<lparr> df := df_prop_update p v (df ob) \<rparr>)) a)" for a
    by (rule static_eq_trans [OF 1 static_eq_obj_refresh])
  show ?thesis
    by (simp add: set_df_property_def static_eq_refl 2 split: option.splits)
qed

lemma static_eq_set_row_df_property: "static_eq L (set_row_df_property L n p v)"
proof -
  have "static_eq L (upd_obj L a (\<lambda>ob. ob\<lparr> df := df_prop_update p v (df ob) \<rparr>))" for a
    by (rule static_eq_upd_obj) (simp_all add: df_static_def df_prop_update_def split: df_property.splits)
  then show ?thesis
    by (simp add: set_row_df_property_def static_eq_refl split: option.splits)
qed

lemma flag_df_prop_update [simp]:
  "hidden_due_to_dependency (df_prop_update p v d) = hidden_due_to_dependency d"
  by (simp add: df_prop_update_def split: df_property.splits)

lemma flag_set_df_property:
  "hidden_due_to_dependency (df (objs (set_df_property L n p v) b))
     = hidden_due_to_dependency (df (objs L b))"
  by (simp add: set_df_property_def upd_obj_def split: option.splits)

lemma flag_set_row_df_property:
  "hidden_due_to_dependency (df (objs (set_row_df_property L n p v) b))
     = hidden_due_to_dependency (df (objs L b))"
  by (simp add: set_row_df_property_def upd_obj_def split: option.splits)

lemma set_dependant_property_frame:
  "static_eq L (snd (set_dependant_property E L c n p))
   \<and> hidden_due_to_dependency (df (objs (snd (set_dependant_property E L c n p)) b))
       = hidden_due_to_dependency (df (objs L b))"
proof -
  have 1: "static_eq L (obj_refresh (set_row_df_property L n p v) a)" for v a
    by (rule static_eq_trans [OF static_eq_set_row_df_property static_eq_obj_refresh])
  show ?thesis
    by (simp add: set_dependant_property_def Let_def static_eq_refl static_eq_set_df_property
        static_eq_set_row_df_property 1 flag_set_df_property flag_set_row_df_property
        split: sum.splits option.splits)
qed

lemma property_step_frame:
  "static_eq L (snd (property_step E a sel p L))
   \<and> hidden_due_to_dependency (df (objs (snd (property_step E a sel p L)) b))
       = hidden_due_to_dependency (df (objs L b))"
  using set_dependant_property_frame
  by (simp add: property_step_def static_eq_refl split: option.splits)

lemma evaluate_error:
  "evaluate_depends_on_value E L x = Inl e \<Longrightarrow> e = InvalidDependsOn \<and> throw_raises E"
  by (auto simp: evaluate_depends_on_value_def Let_def
      split: option.splits expression.splits if_splits js_value.splits)

lemma property_step_error:
  "fst (property_step E a sel p L) = Some e \<Longrightarrow> e = InvalidDependsOn \<and> throw_raises E"
  using evaluate_error
  by (auto simp: property_step_def set_dependant_property_def Let_def
      split: option.splits sum.splits if_splits)

lemma guardian_step_effect:
  "static_eq L (snd (guardian_step E a L))
   \<and> (case eval_if_set E L (depends_on (df (objs L a))) of
        None \<Rightarrow> fst (guardian_step E a L) = None
          \<and> (\<forall>b. df (objs (snd (guardian_step E a L)) b) = df (objs L b))
      | Some (Inl e) \<Rightarrow> fst (guardian_step E a L) = Some e
          \<and> (\<forall>b. df (objs (snd (guardian_step E a L)) b) = df (objs L b))
      | Some (Inr v) \<Rightarrow> fst (guardian_step E a L) = None
          \<and> (\<forall>b. df (objs (snd (guardian_step E a L)) b) =
                (if b = a then (df (objs L a))\<lparr> hidden_due_to_dependency := \<not> truthy v \<rparr>
                 else df (objs L b))))"
proof -
  let ?L1 = "upd_obj L a (\<lambda>ob. ob\<lparr> guardian_has_value := Bool True \<rparr>)"
  have s1: "static_eq L ?L1"
    by (rule static_eq_upd_obj) simp_all
  have d1: "df (objs ?L1 b) = df (objs L b)" for b
    by (simp add: upd_obj_def)
  have s2: "static_eq ?L1 (upd_obj ?L1 a (\<lambda>ob. ob\<lparr> guardian_has_value := v \<rparr>))" for v
    by (rule static_eq_upd_obj) simp_all
  have d2: "df (objs (upd_obj ?L1 a (\<lambda>ob. ob\<lparr> guardian_has_value := v \<rparr>)) b) = df (objs L b)" for b v
    by (simp add: upd_obj_def)
  have s3: "static_eq L (show_hide (upd_obj ?L1 a (\<lambda>ob. ob\<lparr> guardian_has_value := v \<rparr>)) a g)" for v g
    by (rule static_eq_trans [OF s1 static_eq_trans [OF s2 static_eq_show_hide]])
  have e: "eval_if_set E ?L1 x = eval_if_set E L x" for x
    by (rule static_eq_eval_if_set [OF s1])
  show ?thesis
    by (simp add: guardian_step_def Let_def e d1 d2 s1 s3 df_show_hide
        split: option.splits sum.splits)
qed

lemma property_step_df_other:
  "hidden_due_to_dependency (df (objs (snd (property_step E a sel p L)) b))
     = hidden_due_to_dependency (df (objs L b))"
  using property_step_frame by blast

lemma static_eq_property_step: "static_eq L (snd (property_step E a sel p L))"
  using property_step_frame by blast

lemma and_then_fst_snd:
  "and_then r k = (case fst r of None \<Rightarrow> k (snd r) | Some e \<Rightarrow> (Some e, snd r))"
  by (cases r) (simp add: and_then_def split: option.splits)

text \<open>The effect of one loop body on the dependency flags.\<close>

lemma dependency_step_flag:
  "static_eq L (snd (dependency_step E a L))
   \<and> (\<forall>b. hidden_due_to_dependency (df (objs (snd (dependency_step E a L)) b)) =
          (case eval_if_set E L (depends_on (df (objs L a))) of
             Some (Inr v) \<Rightarrow> if b = a then \<not> truthy v else hidden_due_to_dependency (df (objs L b))
           | _ \<Rightarrow> hidden_due_to_dependency (df (objs L b))))
   \<and> (\<forall>e. eval_if_set E L (depends_on (df (objs L a))) = Some (Inl e)
          \<longrightarrow> fst (dependency_step E a L) = Some e)
   \<and> (\<forall>e. fst (dependency_step E a L) = Some e \<longrightarrow> e = InvalidDependsOn \<and> throw_raises E)"
proof -
  let ?g = "guardian_step E a L"
  let ?m = "property_step E a mandatory_depends_on Reqd (snd ?g)"
  let ?r = "property_step E a read_only_depends_on ReadOnly (snd ?m)"
  note g = guardian_step_effect [of L E a]
  have sg: "static_eq L (snd ?g)" using g by blast
  have sm: "static_eq L (snd ?m)"
    by (rule static_eq_trans [OF sg static_eq_property_step])
  have sr: "static_eq L (snd ?r)"
    by (rule static_eq_trans [OF sm static_eq_property_step])
  have ge: "fst ?g = Some e \<Longrightarrow> e = InvalidDependsOn \<and> throw_raises E" for e
    using g evaluate_error [of E L]
    by (auto simp: eval_if_set_def split: option.splits sum.splits if_splits)
  show ?thesis
    using g sg sm sr ge property_step_error [of E a mandatory_depends_on Reqd "snd ?g"]
      property_step_error [of E a read_only_depends_on ReadOnly "snd ?m"]
    by (auto simp: dependency_step_def and_then_fst_snd property_step_df_other
        split: option.splits sum.splits)
qed

lemma static_eq_dependency_loop: "static_eq L (snd (dependency_loop E as L))"
proof (induction as arbitrary: L)
  case Nil
  show ?case by (simp add: static_eq_refl)
next
  case (Cons x as)
  have 1: "static_eq L (snd (dependency_step E x L))"
    using dependency_step_flag by blast
  show ?case
    using 1 static_eq_trans [OF 1 Cons.IH [of "snd (dependency_step E x L)"]]
    by (simp add: and_then_fst_snd split: option.splits)
qed

lemma dependency_loop_error:
  "fst (dependency_loop E as L) = Some e \<Longrightarrow> e = InvalidDependsOn \<and> throw_raises E"
proof (induction as arbitrary: L)
  case Nil
  then show ?case by simp
next
  case (Cons x as)
  show ?case
  proof (cases "fst (dependency_step E x L)")
    case None
    with Cons.prems have "fst (dependency_loop E as (snd (dependency_step E x L))) = Some e"
      by (simp add: and_then_fst_snd)
    then show ?thesis by (rule Cons.IH)
  next
    case (Some e')
    with Cons.prems have "e' = e" by (simp add: and_then_fst_snd)
    with Some dependency_step_flag [of L E x] show ?thesis by blast
  qed
qed



lemma hide_of_alt:
  "hide_of L d \<longleftrightarrow> hidden d \<or> hidden_due_to_dependency d
      \<or> (\<exists>f. frm L = Some f \<and> \<not> get_perm f (permlevel d))"
  by (cases "frm L") (simp_all add: hide_of_def)

lemma hide_of_frm: "frm L' = frm L \<Longrightarrow> hide_of L' d = hide_of L d"
  by (simp add: hide_of_alt)

lemma frm_upd_obj [simp]: "frm (upd_obj L a g) = frm L"
  by (simp add: upd_obj_def)

lemma objs_upd_obj: "objs (upd_obj L a g) b = (if b = a then g (objs L a) else objs L b)"
  by (simp add: upd_obj_def)

lemma consistent_upd_obj:
  "consistent (upd_obj L a g) b \<longleftrightarrow>
     (if b = a then hide_control (g (objs L a)) = hide_of L (df (g (objs L a)))
      else consistent L b)"
  by (simp add: consistent_def objs_upd_obj hide_of_frm [of "upd_obj L a g" L])

lemma consistent_section_refresh:
  "consistent (section_refresh L a) b \<longleftrightarrow> b = a \<or> consistent L b"
  by (simp add: section_refresh_def consistent_upd_obj)

lemma consistent_control_refresh:
  "consistent (control_refresh L a) b \<longleftrightarrow> b = a \<or> consistent L b"
  by (simp add: control_refresh_def consistent_upd_obj)

lemma consistent_upd_refreshes:
  "consistent (upd_obj L a (\<lambda>ob. ob\<lparr> refreshes := n ob \<rparr>)) b = consistent L b"
  by (cases "b = a") (simp_all add: consistent_upd_obj, simp add: consistent_def)

lemma consistent_column_refresh:
  "consistent L b \<Longrightarrow> consistent (column_refresh L a) b"
  unfolding column_refresh_def Let_def
  by (simp add: consistent_section_refresh consistent_upd_refreshes split: option.splits)

lemma consistent_obj_refresh:
  "consistent L b \<Longrightarrow> consistent (obj_refresh L a) b"
  by (simp add: obj_refresh_def consistent_section_refresh consistent_control_refresh
      consistent_column_refresh split: obj_kind.splits)

lemma consistent_obj_refresh_self:
  "kind (objs L a) \<noteq> Column \<Longrightarrow> consistent (obj_refresh L a) a"
  by (simp add: obj_refresh_def consistent_section_refresh consistent_control_refresh
      split: obj_kind.splits)

lemma kind_obj_refresh [simp]: "kind (objs (obj_refresh L a) b) = kind (objs L b)"
  using display_only_obj_refresh [of L a] by (simp add: display_only_def)

lemma attach_consistent:
  "consistent L b \<or> (b \<in> set as \<and> kind (objs L b) \<noteq> Column) \<Longrightarrow>
   consistent (fold (\<lambda>a M. obj_refresh M a) as L) b"
proof (induction as arbitrary: L)
  case Nil
  then show ?case by simp
next
  case (Cons x as)
  have "consistent (obj_refresh L x) b \<or> (b \<in> set as \<and> kind (objs (obj_refresh L x) b) \<noteq> Column)"
    using Cons.prems consistent_obj_refresh [of L b x] consistent_obj_refresh_self [of L x]
    by auto
  from Cons.IH [OF this] show ?case by simp
qed

lemma display_only_attach: "display_only L (fold (\<lambda>a M. obj_refresh M a) as L)"
proof (induction as arbitrary: L)
  case Nil
  show ?case by (simp add: display_only_refl)
next
  case (Cons x as)
  show ?case
    using display_only_trans [OF display_only_obj_refresh Cons.IH [of "obj_refresh L x"]]
    by simp
qed

lemma consistent_flag_upd_other:
  "b \<noteq> a \<Longrightarrow>
   consistent (upd_obj L a (\<lambda>ob. ob\<lparr> df := (df ob)\<lparr> hidden_due_to_dependency := x \<rparr> \<rparr>)) b
     = consistent L b"
  by (simp add: consistent_upd_obj)

lemma kind_upd_df [simp]: "kind (objs (upd_obj L a (\<lambda>ob. ob\<lparr> df := g ob \<rparr>)) b) = kind (objs L b)"
  by (simp add: objs_upd_obj)

lemma consistent_show_hide:
  assumes c: "consistent L b" and k: "kind (objs L b) \<noteq> Column"
  shows "consistent (show_hide L a g) b"
proof -
  let ?U = "\<lambda>x. upd_obj L a (\<lambda>ob. ob\<lparr> df := (df ob)\<lparr> hidden_due_to_dependency := x \<rparr> \<rparr>)"
  have "consistent (obj_refresh (?U x) a) b" for x
  proof (cases "b = a")
    case True
    with k have "kind (objs (?U x) a) \<noteq> Column" by simp
    from consistent_obj_refresh_self [OF this] True show ?thesis by simp
  next
    case False
    with c have "consistent (?U x) b" by (simp add: consistent_flag_upd_other)
    then show ?thesis by (rule consistent_obj_refresh)
  qed
  with c show ?thesis by (simp add: show_hide_def)
qed

lemma hide_of_df_prop_update [simp]: "hide_of L (df_prop_update p v d) = hide_of L d"
  by (cases p) (simp_all add: hide_of_alt df_prop_update_def)

lemma consistent_prop_upd:
  "consistent (upd_obj L a (\<lambda>ob. ob\<lparr> df := df_prop_update p v (df ob) \<rparr>)) b = consistent L b"
  by (cases "b = a") (simp_all add: consistent_upd_obj, simp add: consistent_def)

lemma consistent_set_df_property:
  "consistent L b \<Longrightarrow> consistent (set_df_property L n p v) b"
  by (simp add: set_df_property_def consistent_prop_upd consistent_obj_refresh
      split: option.splits)

lemma consistent_set_row_df_property:
  "consistent L b \<Longrightarrow> consistent (set_row_df_property L n p v) b"
  by (simp add: set_row_df_property_def consistent_prop_upd split: option.splits)

lemma consistent_set_dependant_property:
  assumes "consistent L b"
  shows "consistent (snd (set_dependant_property E L c n p)) b"
proof (cases "evaluate_depends_on_value E L c")
  case (Inl e)
  with assms show ?thesis by (simp add: set_dependant_property_def)
next
  case (Inr v)
  have 1: "consistent (set_df_property L n p (truthy v)) b"
    using assms by (rule consistent_set_df_property)
  have 2: "consistent (set_row_df_property L n p (truthy v)) b"
    using assms by (rule consistent_set_row_df_property)
  have 3: "consistent (obj_refresh (set_row_df_property L n p (truthy v)) a) b" for a
    using 2 by (rule consistent_obj_refresh)
  show ?thesis
    using assms 1 2 3 Inr
    by (simp add: set_dependant_property_def Let_def split: option.splits)
qed

lemma consistent_property_step:
  "consistent L b \<Longrightarrow> consistent (snd (property_step E a sel p L)) b"
  by (simp add: property_step_def consistent_set_dependant_property split: option.splits)

lemma consistent_guardian_upd:
  "consistent (upd_obj L a (\<lambda>ob. ob\<lparr> guardian_has_value := v \<rparr>)) b = consistent L b"
  by (cases "b = a") (simp_all add: consistent_upd_obj, simp add: consistent_def)

lemma kind_guardian_upd [simp]:
  "kind (objs (upd_obj L a (\<lambda>ob. ob\<lparr> guardian_has_value := v \<rparr>)) b) = kind (objs L b)"
  by (simp add: objs_upd_obj)

lemma consistent_guardian_step:
  assumes "consistent L b" and "kind (objs L b) \<noteq> Column"
  shows "consistent (snd (guardian_step E a L)) b"
proof -
  let ?L1 = "upd_obj L a (\<lambda>ob. ob\<lparr> guardian_has_value := Bool True \<rparr>)"
  have c1: "consistent ?L1 b" using assms by (simp add: consistent_guardian_upd)
  have "consistent (show_hide (upd_obj ?L1 a (\<lambda>ob. ob\<lparr> guardian_has_value := v \<rparr>)) a g) b" for v g
    by (rule consistent_show_hide) (simp_all add: consistent_guardian_upd assms)
  with c1 show ?thesis
    by (simp add: guardian_step_def Let_def split: option.splits sum.splits)
qed

lemma static_eq_kind: "static_eq L L' \<Longrightarrow> kind (objs L' b) = kind (objs L b)"
  by (simp add: static_eq_def)

lemma static_eq_dependency_step: "static_eq L (snd (dependency_step E a L))"
  using dependency_step_flag by blast

lemma consistent_dependency_step:
  assumes "consistent L b" and "kind (objs L b) \<noteq> Column"
  shows "consistent (snd (dependency_step E a L)) b"
proof -
  have g: "consistent (snd (guardian_step E a L)) b"
    using assms by (rule consistent_guardian_step)
  show ?thesis
    using g
    by (simp add: dependency_step_def and_then_fst_snd consistent_property_step
        split: option.splits)
qed

lemma consistent_dependency_loop:
  "consistent L b \<Longrightarrow> kind (objs L b) \<noteq> Column \<Longrightarrow>
   consistent (snd (dependency_loop E as L)) b"
proof (induction as arbitrary: L)
  case Nil
  then show ?case by simp
next
  case (Cons x as)
  let ?L1 = "snd (dependency_step E x L)"
  have c: "consistent ?L1 b" using Cons.prems by (rule consistent_dependency_step)
  have k: "kind (objs ?L1 b) \<noteq> Column"
    using Cons.prems(2) by (simp add: static_eq_kind [OF static_eq_dependency_step])
  from Cons.IH [OF c k] c show ?case
    by (simp add: and_then_fst_snd split: option.splits)
qed

lemma mark_fold:
  "fold (\<lambda>a M. upd_obj M a (\<lambda>ob. ob\<lparr> dependencies_clear := True \<rparr>)) as L =
     L\<lparr> objs := (\<lambda>b. if b \<in> set as then (objs L b)\<lparr> dependencies_clear := True \<rparr> else objs L b) \<rparr>"
proof (induction as arbitrary: L)
  case Nil
  show ?case by simp
next
  case (Cons x as)
  let ?f = "\<lambda>a M. upd_obj M a (\<lambda>ob. ob\<lparr> dependencies_clear := True \<rparr>)"
  let ?L1 = "upd_obj L x (\<lambda>ob. ob\<lparr> dependencies_clear := True \<rparr>)"
  have "fold ?f (x # as) L = fold ?f as ?L1" by simp
  also have "\<dots> = ?L1\<lparr> objs := (\<lambda>b. if b \<in> set as then (objs ?L1 b)\<lparr> dependencies_clear := True \<rparr>
       else objs ?L1 b) \<rparr>"
    by (rule Cons.IH)
  also have "\<dots> = L\<lparr> objs := (\<lambda>b. if b \<in> set (x # as) then (objs L b)\<lparr> dependencies_clear := True \<rparr>
       else objs L b) \<rparr>"
    by (auto simp: upd_obj_def fun_eq_iff)
  finally show ?case .
qed

lemma mark_dependencies_clear_eq:
  "mark_dependencies_clear L =
     L\<lparr> objs := (\<lambda>b. if b \<in> set (fields_list L) then (objs L b)\<lparr> dependencies_clear := True \<rparr>
                     else objs L b) \<rparr>"
  by (simp add: mark_dependencies_clear_def mark_fold)

lemma mark_simps [simp]:
  "df (objs (mark_dependencies_clear L) b) = df (objs L b)"
  "kind (objs (mark_dependencies_clear L) b) = kind (objs L b)"
  "hide_control (objs (mark_dependencies_clear L) b) = hide_control (objs L b)"
  "refreshes (objs (mark_dependencies_clear L) b) = refreshes (objs L b)"
  "body_hide (objs (mark_dependencies_clear L) b) = body_hide (objs L b)"
  "fields_list (mark_dependencies_clear L) = fields_list L"
  "frm (mark_dependencies_clear L) = frm L"
  by (simp_all add: mark_dependencies_clear_eq)

lemma display_only_mark: "display_only L (mark_dependencies_clear L)"
  by (simp add: display_only_def mark_dependencies_clear_eq)

lemma consistent_mark [simp]: "consistent (mark_dependencies_clear L) b = consistent L b"
  by (simp add: consistent_def hide_of_frm [of "mark_dependencies_clear L" L])

lemma eval_if_set_None: "\<not> expr_set x \<Longrightarrow> eval_if_set E L x = None"
  by (cases x) (simp_all add: eval_if_set_def)


lemma static_eq_refresh_dependency: "static_eq L (snd (refresh_dependency E L))"
proof -
  have m: "static_eq L (mark_dependencies_clear L)"
    by (rule display_only_static_eq [OF display_only_mark])
  show ?thesis
    using m static_eq_trans [OF m static_eq_dependency_loop]
    by (simp add: refresh_dependency_def Let_def)
qed

lemma refresh_dependency_error:
  "fst (refresh_dependency E L) = Some e \<Longrightarrow> e = InvalidDependsOn \<and> throw_raises E"
  using dependency_loop_error
  by (simp add: refresh_dependency_def Let_def split: if_splits)



lemma consistent_refresh_dependency:
  "consistent L b \<Longrightarrow> kind (objs L b) \<noteq> Column \<Longrightarrow>
   consistent (snd (refresh_dependency E L)) b"
  using consistent_dependency_loop [of "mark_dependencies_clear L" b E]
  by (simp add: refresh_dependency_def Let_def)

lemma consistent_body_hide_upd:
  "consistent (upd_obj L a (\<lambda>ob. ob\<lparr> body_hide := x \<rparr>)) b = consistent L b"
  by (cases "b = a") (simp_all add: consistent_upd_obj, simp add: consistent_def)

lemma consistent_fold_signature:
  "consistent L b \<Longrightarrow> consistent (fold refresh_signature fs L) b"
proof (induction fs arbitrary: L)
  case Nil
  then show ?case by simp
next
  case (Cons f fs)
  have "consistent (refresh_signature f L) b"
    using Cons.prems by (simp add: refresh_signature_def consistent_obj_refresh)
  from Cons.IH [OF this] show ?case by simp
qed

lemma consistent_collapse: "consistent L b \<Longrightarrow> consistent (collapse L s h) b"
  by (simp add: collapse_def Let_def consistent_fold_signature consistent_body_hide_upd)

lemma section_collapse_loop_frame:
  "display_only L (snd (refresh_section_collapse_loop E ss L))
   \<and> (consistent L b \<longrightarrow> consistent (snd (refresh_section_collapse_loop E ss L)) b)"
proof (induction ss arbitrary: L)
  case Nil
  show ?case by (simp add: display_only_refl)
next
  case (Cons s ss)
  show ?case
  proof (cases "collapsible (df (objs L s))")
    case False
    with Cons.IH [of L] show ?thesis by simp
  next
    case True
    show ?thesis
    proof (cases "computed_collapse E L s")
      case (Inl e)
      with True show ?thesis by (simp add: display_only_refl)
    next
      case (Inr c)
      let ?M = "collapse L s (Some c)"
      have d: "display_only L ?M" by (rule display_only_collapse)
      have c1: "consistent L b \<longrightarrow> consistent ?M b" by (simp add: consistent_collapse)
      from Cons.IH [of ?M] d c1 True Inr show ?thesis
        by (auto intro: display_only_trans)
    qed
  qed
qed

lemma refresh_section_collapse_frame:
  "display_only L (snd (refresh_section_collapse E L))"
  "consistent L b \<Longrightarrow> consistent (snd (refresh_section_collapse E L)) b"
  using section_collapse_loop_frame [of L E "sections L" b]
  by (simp_all add: refresh_section_collapse_def)

lemma refresh_alt:
  "refresh E L nd =
     and_then (refresh_dependency E (attached L nd))
       (\<lambda>L3. if frm L3 \<noteq> None then refresh_section_collapse E L3 else (None, L3))"
  by (simp add: refresh_def attached_def with_doc_def Let_def)

lemma with_doc_simps [simp]:
  "objs (with_doc L nd) = objs L" "fields_list (with_doc L nd) = fields_list L"
  "frm (with_doc L nd) = frm L" "sections (with_doc L nd) = sections L"
  "fields_dict (with_doc L nd) = fields_dict L"
  by (simp_all add: with_doc_def split: option.splits)

lemma display_only_attached: "display_only (with_doc L nd) (attached L nd)"
  by (simp add: attached_def attach_doc_and_docfields_def display_only_attach)

lemma attached_simps [simp]:
  "df (objs (attached L nd) b) = df (objs L b)"
  "kind (objs (attached L nd) b) = kind (objs L b)"
  "fields_list (attached L nd) = fields_list L"
  "frm (attached L nd) = frm L"
  "sections (attached L nd) = sections L"
  "fields_dict (attached L nd) = fields_dict L"
  "doc (attached L nd) = doc (with_doc L nd)"
  using display_only_attached [of L nd] by (simp_all add: display_only_def)

lemma attached_consistent:
  "b \<in> set (fields_list L) \<Longrightarrow> kind (objs L b) \<noteq> Column \<Longrightarrow> consistent (attached L nd) b"
  unfolding attached_def attach_doc_and_docfields_def
  by simp (rule attach_consistent, simp)

text \<open>What a completed \<^verbatim>\<open>refresh\<close> leaves behind.\<close>

lemma refresh_completed:
  assumes "refresh E L nd = (None, L')"
  shows "\<exists>L3. refresh_dependency E (attached L nd) = (None, L3) \<and> display_only L3 L'
     \<and> (\<forall>b. consistent L3 b \<longrightarrow> consistent L' b)"
proof -
  obtain e3 L3 where rd: "refresh_dependency E (attached L nd) = (e3, L3)"
    by (cases "refresh_dependency E (attached L nd)") auto
  from assms rd have e3: "e3 = None"
    by (auto simp: refresh_alt and_then_def split: option.splits)
  from assms rd e3 have L': "L' = (if frm L3 \<noteq> None then snd (refresh_section_collapse E L3) else L3)"
    by (auto simp: refresh_alt and_then_def split: if_splits)
  show ?thesis
    using rd e3 L' refresh_section_collapse_frame [where L=L3 and E=E]
    by (auto simp: display_only_refl)
qed

lemmas refresh_defs = refresh_def attach_doc_and_docfields_def refresh_dependency_def
  mark_dependencies_clear_def has_dep_of_def dependency_step_def guardian_step_def
  property_step_def set_dependant_property_def set_df_property_def set_row_df_property_def
  child_row_doc_def show_hide_def obj_refresh_def control_refresh_def section_refresh_def
  column_refresh_def eval_if_set_def evaluate_depends_on_value_def resolve_doc_def
  parent_binding_def submittable_carve_out_def refresh_section_collapse_def
  computed_collapse_def has_missing_mandatory_def collapse_def refresh_signature_def
  df_prop_def df_prop_update_def doc_get_def object_prototype_members_def prop_key_def and_then_def upd_obj_def hide_of_def
  Let_def demo_env_def demo_eval_def demo_form_def status_open_expr_def

lemma static_eq_refresh: "static_eq (with_doc L nd) (snd (refresh E L nd))"
proof -
  let ?A = "attached L nd"
  let ?L3 = "snd (refresh_dependency E ?A)"
  have 1: "static_eq (with_doc L nd) ?A"
    by (rule display_only_static_eq [OF display_only_attached])
  have 2: "static_eq (with_doc L nd) ?L3"
    by (rule static_eq_trans [OF 1 static_eq_refresh_dependency])
  have 3: "static_eq (with_doc L nd) (snd (refresh_section_collapse E ?L3))"
    by (rule static_eq_trans [OF 2 display_only_static_eq [OF refresh_section_collapse_frame(1)]])
  show ?thesis
    using 2 3 by (simp add: refresh_alt and_then_fst_snd split: option.splits)
qed

lemma refresh_keeps:
  "fields_list (snd (refresh E L nd)) = fields_list L"
  "sections (snd (refresh E L nd)) = sections L"
  "frm (snd (refresh E L nd)) = frm L"
  "doc (snd (refresh E L nd)) = doc (with_doc L nd)"
  "depends_on (df (objs (snd (refresh E L nd)) b)) = depends_on (df (objs L b))"
  "mandatory_depends_on (df (objs (snd (refresh E L nd)) b)) = mandatory_depends_on (df (objs L b))"
  "read_only_depends_on (df (objs (snd (refresh E L nd)) b)) = read_only_depends_on (df (objs L b))"
  "kind (objs (snd (refresh E L nd)) b) = kind (objs L b)"
  using static_eq_refresh [of L nd E] static_eq_df [OF static_eq_refresh [of L nd E], of b]
  by (simp_all add: static_eq_def)

lemma refresh_dependency_no_raise:
  "\<not> throw_raises E \<Longrightarrow> fst (refresh_dependency E L) = None"
  using refresh_dependency_error [of E L] by (cases "fst (refresh_dependency E L)") auto

section \<open>The dependency pass: fields it leaves alone\<close>

lemma static_eq_well_formed: "static_eq L L' \<Longrightarrow> well_formed L \<Longrightarrow> well_formed L'"
  unfolding well_formed_def
  using static_eq_df(1) [of L L']
  by (simp add: static_eq_def)


lemma obj_refresh_other:
  assumes "b \<noteq> a"
    and "kind (objs L a) = Column \<longrightarrow> obj_section (objs L a) \<noteq> Some b"
  shows "objs (obj_refresh L a) b = objs L b"
  using assms
  by (simp add: obj_refresh_def control_refresh_def section_refresh_def column_refresh_def
      Let_def objs_upd_obj split: obj_kind.splits option.splits)

lemma obj_refresh_other_wf:
  assumes "well_formed L" and "kind (objs L b) = Control" and "b \<noteq> a"
  shows "objs (obj_refresh L a) b = objs L b"
proof (rule obj_refresh_other [OF assms(3)])
  show "kind (objs L a) = Column \<longrightarrow> obj_section (objs L a) \<noteq> Some b"
    using assms(1,2) by (auto simp: well_formed_def)
qed

lemma shown_upd_other: "b \<noteq> a \<Longrightarrow> shown (upd_obj L a g) b = shown L b"
  by (simp add: shown_def objs_upd_obj)

lemma shown_cong: "objs L' b = objs L b \<Longrightarrow> shown L' b = shown L b"
  by (simp add: shown_def)



lemma shown_guardian_upd [simp]:
  "shown (upd_obj L a (\<lambda>ob. ob\<lparr> guardian_has_value := v \<rparr>)) b = shown L b"
  by (simp add: shown_def objs_upd_obj)








lemma static_eq_fields_list: "static_eq L L' \<Longrightarrow> fields_list L' = fields_list L"
  by (simp add: static_eq_def)

lemma static_eq_guardian_step: "static_eq L (snd (guardian_step E a L))"
  using guardian_step_effect by blast



lemma shown_mark [simp]: "shown (mark_dependencies_clear L) b = shown L b"
  by (simp add: shown_def)

section \<open>The dependency pass: what it computes\<close>

lemma df_prop_update_same: "df_prop p d = v \<Longrightarrow> df_prop_update p v d = d"
  by (cases p) (auto simp: df_prop_def df_prop_update_def)

lemma df_set_df_property:
  "df (objs (set_df_property L n p v) b) =
     (if fields_dict L (prop_key n) = Some b then df_prop_update p v (df (objs L b))
      else df (objs L b))"
  by (auto simp: set_df_property_def objs_upd_obj df_prop_update_same split: option.splits)

lemma df_set_row_df_property:
  "df (objs (set_row_df_property L n p v) b) =
     (if fields_dict L (prop_key n) = Some b then df_prop_update p v (df (objs L b))
      else df (objs L b))"
  by (auto simp: set_row_df_property_def objs_upd_obj split: option.splits)

lemma fields_dict_set_row [simp]:
  "fields_dict (set_row_df_property L n p v) = fields_dict L"
  by (simp add: set_row_df_property_def upd_obj_def split: option.splits)

lemma df_set_dependant_property:
  "df (objs (snd (set_dependant_property E L c n p)) b) =
     (case evaluate_depends_on_value E L c of
        Inr v \<Rightarrow> if form_obj L \<and> fields_dict L (prop_key n) = Some b
                 then df_prop_update p (truthy v) (df (objs L b)) else df (objs L b)
      | Inl e \<Rightarrow> df (objs L b))"
  by (simp add: set_dependant_property_def Let_def form_obj_def df_set_df_property
      df_set_row_df_property split: sum.splits option.splits)

lemma df_property_step:
  "df (objs (snd (property_step E a sel p L)) b) =
     (case eval_if_set E L (sel (df (objs L a))) of
        Some (Inr v) \<Rightarrow>
          if form_obj L \<and> fields_dict L (prop_key (fieldname (df (objs L a)))) = Some b
          then df_prop_update p (truthy v) (df (objs L b)) else df (objs L b)
      | _ \<Rightarrow> df (objs L b))"
  by (simp add: property_step_def eval_if_set_def df_set_dependant_property
      split: option.splits sum.splits)

lemma df_property_step_wf:
  assumes "well_formed L" and "a \<in> set (fields_list L)"
  shows "df (objs (snd (property_step E a sel p L)) b) =
     (if b = a then prop_outcome E L a sel p (df (objs L a)) else df (objs L b))"
proof -
  have "fields_dict L (prop_key (fieldname (df (objs L a)))) = Some b \<Longrightarrow> b = a"
    using assms by (auto simp: well_formed_def)
  then show ?thesis
    by (auto simp: df_property_step prop_outcome_def split: option.splits sum.splits)
qed

lemma static_eq_form_obj: "static_eq L M \<Longrightarrow> form_obj M = form_obj L"
  by (simp add: form_obj_def static_eq_def)

lemma static_eq_fields_dict: "static_eq L M \<Longrightarrow> fields_dict M = fields_dict L"
  by (simp add: static_eq_def)

lemma static_eq_prop_outcome:
  "static_eq L M \<Longrightarrow> prop_outcome E M a sel p d = prop_outcome E L a sel p d"
  by (simp add: prop_outcome_def static_eq_eval_if_set static_eq_form_obj static_eq_fields_dict
      cong: option.case_cong sum.case_cong)

lemma static_eq_flag_outcome:
  "static_eq L M \<Longrightarrow> flag_outcome E M d = flag_outcome E L d"
  by (simp add: flag_outcome_def static_eq_eval_if_set)

lemma static_eq_outcome: "static_eq L M \<Longrightarrow> outcome E M a d = outcome E L a d"
  by (simp add: outcome_def static_eq_prop_outcome static_eq_flag_outcome)

lemma flag_outcome_static [simp]:
  "depends_on (flag_outcome E L d) = depends_on d"
  "mandatory_depends_on (flag_outcome E L d) = mandatory_depends_on d"
  "read_only_depends_on (flag_outcome E L d) = read_only_depends_on d"
  "fieldname (flag_outcome E L d) = fieldname d"
  by (simp_all add: flag_outcome_def split: option.splits sum.splits)

lemma df_prop_update_static [simp]:
  "depends_on (df_prop_update p v d) = depends_on d"
  "mandatory_depends_on (df_prop_update p v d) = mandatory_depends_on d"
  "read_only_depends_on (df_prop_update p v d) = read_only_depends_on d"
  "fieldname (df_prop_update p v d) = fieldname d"
  by (cases p; simp add: df_prop_update_def)+

lemma prop_outcome_static [simp]:
  "depends_on (prop_outcome E L a sel p d) = depends_on d"
  "mandatory_depends_on (prop_outcome E L a sel p d) = mandatory_depends_on d"
  "read_only_depends_on (prop_outcome E L a sel p d) = read_only_depends_on d"
  "fieldname (prop_outcome E L a sel p d) = fieldname d"
  by (simp_all add: prop_outcome_def split: option.splits sum.splits)

lemma flag_outcome_idem: "flag_outcome E L (flag_outcome E L d) = flag_outcome E L d"
  by (simp add: flag_outcome_def split: option.splits sum.splits)

lemma df_prop_update_idem: "df_prop_update p v (df_prop_update p v d) = df_prop_update p v d"
  by (cases p) (simp_all add: df_prop_update_def)

lemma df_prop_update_flag:
  "df_prop_update p v (d\<lparr> hidden_due_to_dependency := x \<rparr>)
     = (df_prop_update p v d)\<lparr> hidden_due_to_dependency := x \<rparr>"
  by (cases p) (simp_all add: df_prop_update_def)

lemma df_prop_update_commute:
  "df_prop_update ReadOnly v (df_prop_update Reqd w d)
     = df_prop_update Reqd w (df_prop_update ReadOnly v d)"
  by (simp add: df_prop_update_def)

lemma flag_outcome_prop_outcome:
  "sel = mandatory_depends_on \<or> sel = read_only_depends_on \<Longrightarrow>
   flag_outcome E L (prop_outcome E L a sel p d) = prop_outcome E L a sel p (flag_outcome E L d)"
  unfolding flag_outcome_def prop_outcome_def
  by (cases "eval_if_set E L (depends_on d)"; cases "eval_if_set E L (sel d)")
    (auto simp: df_prop_update_flag split: sum.splits)

lemma prop_outcome_idem:
  "sel = mandatory_depends_on \<or> sel = read_only_depends_on \<Longrightarrow>
   prop_outcome E L a sel p (prop_outcome E L a sel p d) = prop_outcome E L a sel p d"
  unfolding prop_outcome_def
  by (cases "eval_if_set E L (sel d)") (auto simp: df_prop_update_idem split: sum.splits)

lemma prop_outcome_commute:
  "prop_outcome E L a mandatory_depends_on Reqd (prop_outcome E L a read_only_depends_on ReadOnly d)
   = prop_outcome E L a read_only_depends_on ReadOnly (prop_outcome E L a mandatory_depends_on Reqd d)"
  unfolding prop_outcome_def
  by (cases "eval_if_set E L (mandatory_depends_on d)"; cases "eval_if_set E L (read_only_depends_on d)")
    (auto simp: df_prop_update_commute split: sum.splits)

lemma outcome_idem: "outcome E L a (outcome E L a d) = outcome E L a d"
proof -
  let ?F = "flag_outcome E L"
  let ?M = "prop_outcome E L a mandatory_depends_on Reqd"
  let ?R = "prop_outcome E L a read_only_depends_on ReadOnly"
  have "?R (?M (?F (?R (?M (?F d))))) = ?R (?M (?R (?M (?F (?F d)))))"
    by (simp add: flag_outcome_prop_outcome)
  also have "\<dots> = ?R (?R (?M (?M (?F d))))"
    by (simp add: flag_outcome_idem prop_outcome_commute)
  also have "\<dots> = ?R (?M (?F d))"
    by (simp add: prop_outcome_idem)
  finally show ?thesis by (simp add: outcome_def)
qed

lemma outcome_no_dep: "\<not> has_dep_of d \<Longrightarrow> outcome E L a d = d"
  by (simp add: outcome_def prop_outcome_def flag_outcome_def has_dep_of_def eval_if_set_None)

lemma fst_property_step:
  "fst (property_step E a sel p L) =
     (case eval_if_set E L (sel (df (objs L a))) of Some (Inl e) \<Rightarrow> Some e | _ \<Rightarrow> None)"
  by (simp add: property_step_def eval_if_set_def set_dependant_property_def Let_def
      split: option.splits sum.splits)

lemma fst_guardian_step:
  "fst (guardian_step E a L) =
     (case eval_if_set E L (depends_on (df (objs L a))) of Some (Inl e) \<Rightarrow> Some e | _ \<Rightarrow> None)"
  using guardian_step_effect [of L E a]
  by (auto split: option.splits sum.splits)

lemma df_guardian_step:
  "fst (guardian_step E a L) = None \<Longrightarrow>
   df (objs (snd (guardian_step E a L)) b) =
     (if b = a then flag_outcome E L (df (objs L a)) else df (objs L b))"
  using guardian_step_effect [of L E a]
  by (auto simp: flag_outcome_def split: option.splits sum.splits)

lemma df_dependency_step_wf:
  assumes wf: "well_formed L" and a: "a \<in> set (fields_list L)"
    and ok: "fst (dependency_step E a L) = None"
  shows "df (objs (snd (dependency_step E a L)) b) =
     (if b = a then outcome E L a (df (objs L a)) else df (objs L b))"
proof -
  let ?G = "snd (guardian_step E a L)"
  let ?M = "snd (property_step E a mandatory_depends_on Reqd ?G)"
  let ?R = "snd (property_step E a read_only_depends_on ReadOnly ?M)"
  have sG: "static_eq L ?G" by (rule static_eq_guardian_step)
  have sM: "static_eq L ?M" by (rule static_eq_trans [OF sG static_eq_property_step])
  from ok have g: "fst (guardian_step E a L) = None"
    by (simp add: dependency_step_def and_then_fst_snd split: option.splits)
  from ok g have m: "fst (property_step E a mandatory_depends_on Reqd ?G) = None"
    by (simp add: dependency_step_def and_then_fst_snd split: option.splits)
  have snd_eq: "snd (dependency_step E a L) = ?R"
    using g m by (simp add: dependency_step_def and_then_fst_snd)
  have aG: "a \<in> set (fields_list ?G)" using a by (simp add: static_eq_fields_list [OF sG])
  have aM: "a \<in> set (fields_list ?M)" using a by (simp add: static_eq_fields_list [OF sM])
  have dG: "df (objs ?G c) = (if c = a then flag_outcome E L (df (objs L a)) else df (objs L c))" for c
    by (rule df_guardian_step [OF g])
  have dM: "df (objs ?M c) =
      (if c = a then prop_outcome E L a mandatory_depends_on Reqd (flag_outcome E L (df (objs L a)))
       else df (objs L c))" for c
    unfolding df_property_step_wf [OF static_eq_well_formed [OF sG wf] aG]
      static_eq_prop_outcome [OF sG] dG by simp
  have dR: "df (objs ?R c) =
      (if c = a then outcome E L a (df (objs L a)) else df (objs L c))" for c
    unfolding df_property_step_wf [OF static_eq_well_formed [OF sM wf] aM]
      static_eq_prop_outcome [OF sM] dM outcome_def by simp
  show ?thesis unfolding snd_eq by (rule dR)
qed

lemma df_dependency_loop_wf:
  assumes "well_formed L" and "set as \<subseteq> set (fields_list L)"
    and "dependency_loop E as L = (None, L')"
  shows "df (objs L' b) = (if b \<in> set as then outcome E L b (df (objs L b)) else df (objs L b))"
  using assms
proof (induction as arbitrary: L)
  case Nil
  then show ?case by simp
next
  case (Cons x as)
  let ?L1 = "snd (dependency_step E x L)"
  from Cons.prems(3) have ok: "fst (dependency_step E x L) = None"
    by (simp add: and_then_fst_snd split: option.splits)
  from Cons.prems(3) ok have rest: "dependency_loop E as ?L1 = (None, L')"
    by (simp add: and_then_fst_snd)
  have s: "static_eq L ?L1" by (rule static_eq_dependency_step)
  have x: "x \<in> set (fields_list L)" using Cons.prems(2) by simp
  have d1: "df (objs ?L1 c) = (if c = x then outcome E L x (df (objs L x)) else df (objs L c))" for c
    by (rule df_dependency_step_wf [OF Cons.prems(1) x ok])
  have sub: "set as \<subseteq> set (fields_list ?L1)"
    using Cons.prems(2) by (simp add: static_eq_fields_list [OF s])
  have ih: "df (objs L' b) =
      (if b \<in> set as then outcome E ?L1 b (df (objs ?L1 b)) else df (objs ?L1 b))"
    by (rule Cons.IH [OF static_eq_well_formed [OF s Cons.prems(1)] sub rest])
  show ?case
    unfolding ih static_eq_outcome [OF s] d1 by (simp add: outcome_idem)
qed

lemma refresh_dependency_df:
  assumes "well_formed L" and "refresh_dependency E L = (None, L')"
  shows "df (objs L' b) =
     (if b \<in> set (fields_list L) then outcome E L b (df (objs L b)) else df (objs L b))"
proof -
  let ?M = "mark_dependencies_clear L"
  have s: "static_eq L ?M" by (rule display_only_static_eq [OF display_only_mark])
  show ?thesis
  proof (cases "list_ex (\<lambda>a. has_dep_of (df (objs L a))) (fields_list L)")
    case True
    with assms(2) have lp: "dependency_loop E (rev (fields_list ?M)) ?M = (None, L')"
      by (simp add: refresh_dependency_def Let_def)
    have sub: "set (rev (fields_list ?M)) \<subseteq> set (fields_list ?M)" by simp
    have "df (objs L' b) =
       (if b \<in> set (rev (fields_list ?M)) then outcome E ?M b (df (objs ?M b)) else df (objs ?M b))"
      by (rule df_dependency_loop_wf [OF static_eq_well_formed [OF s assms(1)] sub lp])
    then show ?thesis by (simp add: static_eq_outcome [OF s])
  next
    case False
    with assms(2) have L': "L' = ?M" by (simp add: refresh_dependency_def Let_def)
    have "b \<in> set (fields_list L) \<Longrightarrow> \<not> has_dep_of (df (objs L b))"
      using False by (auto simp: list_ex_iff)
    then show ?thesis by (auto simp: L' outcome_no_dep)
  qed
qed

lemma static_eq_sym: "static_eq L M \<Longrightarrow> static_eq M L"
  by (simp add: static_eq_def)

lemma fst_dependency_step: "fst (dependency_step E a L) = step_error E L a"
proof -
  let ?G = "snd (guardian_step E a L)"
  let ?M = "snd (property_step E a mandatory_depends_on Reqd ?G)"
  have sG: "static_eq L ?G" by (rule static_eq_guardian_step)
  have sM: "static_eq L ?M" by (rule static_eq_trans [OF sG static_eq_property_step])
  have eG: "eval_if_set E ?G (sel (df (objs ?G a))) = eval_if_set E L (sel (df (objs L a)))"
    if "sel = mandatory_depends_on \<or> sel = read_only_depends_on" for sel
    using that static_eq_df [OF sG, of a] by (auto simp: static_eq_eval_if_set [OF sG])
  have eM: "eval_if_set E ?M (sel (df (objs ?M a))) = eval_if_set E L (sel (df (objs L a)))"
    if "sel = mandatory_depends_on \<or> sel = read_only_depends_on" for sel
    using that static_eq_df [OF sM, of a] by (auto simp: static_eq_eval_if_set [OF sM])
  show ?thesis
    unfolding dependency_step_def and_then_fst_snd step_error_def
    by (simp add: fst_guardian_step fst_property_step eG eM split: option.splits sum.splits)
qed

lemma static_eq_eval_sel:
  assumes "static_eq L M"
  shows "eval_if_set E M (depends_on (df (objs M a))) = eval_if_set E L (depends_on (df (objs L a)))"
    "eval_if_set E M (mandatory_depends_on (df (objs M a)))
       = eval_if_set E L (mandatory_depends_on (df (objs L a)))"
    "eval_if_set E M (read_only_depends_on (df (objs M a)))
       = eval_if_set E L (read_only_depends_on (df (objs L a)))"
    "eval_if_set E M (collapsible_depends_on (df (objs M a)))
       = eval_if_set E L (collapsible_depends_on (df (objs L a)))"
  by (simp_all add: static_eq_eval_if_set [OF assms] static_eq_df [OF assms])

lemma static_eq_step_error: "static_eq L M \<Longrightarrow> step_error E M a = step_error E L a"
  unfolding step_error_def by (simp only: static_eq_eval_sel)

lemma fst_dependency_loop_static:
  "static_eq L M \<Longrightarrow> fst (dependency_loop E as M) = fst (dependency_loop E as L)"
proof (induction as arbitrary: L M)
  case Nil
  show ?case by simp
next
  case (Cons x as)
  let ?L1 = "snd (dependency_step E x L)"
  let ?M1 = "snd (dependency_step E x M)"
  have e: "fst (dependency_step E x M) = fst (dependency_step E x L)"
    by (simp add: fst_dependency_step static_eq_step_error [OF Cons.prems])
  have "static_eq ?L1 ?M1"
    by (rule static_eq_trans [OF static_eq_sym [OF static_eq_dependency_step]
          static_eq_trans [OF Cons.prems static_eq_dependency_step]])
  from Cons.IH [OF this] e show ?case
    by (simp add: and_then_fst_snd split: option.splits)
qed

lemma static_eq_has_dep:
  "static_eq L M \<Longrightarrow> has_dep_of (df (objs M a)) = has_dep_of (df (objs L a))"
  using static_eq_df [of L M a] by (simp add: has_dep_of_def)

lemma fst_refresh_dependency_static:
  assumes "static_eq L M"
  shows "fst (refresh_dependency E M) = fst (refresh_dependency E L)"
proof -
  have m: "static_eq (mark_dependencies_clear L) (mark_dependencies_clear M)"
    by (rule static_eq_trans [OF static_eq_sym [OF display_only_static_eq [OF display_only_mark]]
          static_eq_trans [OF assms display_only_static_eq [OF display_only_mark]]])
  have fl: "fields_list M = fields_list L" using assms by (rule static_eq_fields_list)
  show ?thesis
    using fst_dependency_loop_static [OF m, of E "rev (fields_list L)"]
    by (simp add: refresh_dependency_def Let_def fl static_eq_has_dep [OF assms])
qed

lemma body_hide_show_hide [simp]: "body_hide (objs (show_hide L a g) s) = body_hide (objs L s)"
  by (simp add: show_hide_def body_hide_obj_refresh objs_upd_obj)

lemma body_hide_set_df_property [simp]:
  "body_hide (objs (set_df_property L n p v) s) = body_hide (objs L s)"
  by (simp add: set_df_property_def body_hide_obj_refresh objs_upd_obj split: option.splits)

lemma body_hide_set_row_df_property [simp]:
  "body_hide (objs (set_row_df_property L n p v) s) = body_hide (objs L s)"
  by (simp add: set_row_df_property_def objs_upd_obj split: option.splits)

lemma body_hide_set_dependant_property [simp]:
  "body_hide (objs (snd (set_dependant_property E L c n p)) s) = body_hide (objs L s)"
  by (simp add: set_dependant_property_def Let_def body_hide_obj_refresh
      split: sum.splits option.splits)

lemma body_hide_property_step [simp]:
  "body_hide (objs (snd (property_step E a sel p L)) s) = body_hide (objs L s)"
  by (simp add: property_step_def split: option.splits)

lemma body_hide_guardian_step [simp]:
  "body_hide (objs (snd (guardian_step E a L)) s) = body_hide (objs L s)"
  by (simp add: guardian_step_def Let_def objs_upd_obj split: option.splits sum.splits)

lemma body_hide_dependency_step [simp]:
  "body_hide (objs (snd (dependency_step E a L)) s) = body_hide (objs L s)"
  by (simp add: dependency_step_def and_then_fst_snd split: option.splits)

lemma body_hide_dependency_loop [simp]:
  "body_hide (objs (snd (dependency_loop E as L)) s) = body_hide (objs L s)"
  by (induction as arbitrary: L) (simp_all add: and_then_fst_snd split: option.splits)

lemma body_hide_refresh_dependency [simp]:
  "body_hide (objs (snd (refresh_dependency E L)) s) = body_hide (objs L s)"
  by (simp add: refresh_dependency_def Let_def)

lemma body_hide_attach:
  "body_hide (objs (fold (\<lambda>a M. obj_refresh M a) as L) s) = body_hide (objs L s)"
  by (induction as arbitrary: L) (simp_all add: body_hide_obj_refresh)

lemma body_hide_attached [simp]:
  "body_hide (objs (attached L nd) s) = body_hide (objs L s)"
  by (simp add: attached_def attach_doc_and_docfields_def body_hide_attach)

lemma section_collapse_completes_iff:
  "fst (refresh_section_collapse_loop E ss L) = None \<longleftrightarrow>
     (\<forall>s\<in>set ss. collapsible (df (objs L s)) \<longrightarrow> (\<exists>c. computed_collapse E L s = Inr c))"
proof (induction ss arbitrary: L)
  case Nil
  show ?case by simp
next
  case (Cons s ss)
  show ?case
  proof (cases "collapsible (df (objs L s))")
    case False
    with Cons.IH [of L] show ?thesis by simp
  next
    case True
    show ?thesis
    proof (cases "computed_collapse E L s")
      case (Inl e)
      with True show ?thesis by auto
    next
      case (Inr c)
      let ?M = "collapse L s (Some c)"
      have d: "display_only L ?M" by (rule display_only_collapse)
      have "(\<forall>t\<in>set ss. collapsible (df (objs ?M t)) \<longrightarrow> (\<exists>c. computed_collapse E ?M t = Inr c))
          = (\<forall>t\<in>set ss. collapsible (df (objs L t)) \<longrightarrow> (\<exists>c. computed_collapse E L t = Inr c))"
        using d by (simp add: display_only_computed_collapse [OF d] display_only_def)
      with Cons.IH [of ?M] True Inr show ?thesis by simp
    qed
  qed
qed

lemma static_df_display_only:
  "static_eq L M \<Longrightarrow> (\<And>b. df (objs M b) = df (objs L b)) \<Longrightarrow> display_only L M"
  by (simp add: static_eq_def display_only_def)

lemma well_formed_with_doc [simp]: "well_formed (with_doc L nd) = well_formed L"
  by (simp add: well_formed_def)

lemma refresh_consistent:
  assumes "b \<in> set (fields_list L)" and "kind (objs L b) \<noteq> Column"
  shows "consistent (snd (refresh E L nd)) b"
proof -
  let ?A = "attached L nd"
  let ?L3 = "snd (refresh_dependency E ?A)"
  have cA: "consistent ?A b" using assms by (rule attached_consistent)
  have c3: "consistent ?L3 b"
    using cA assms(2) by (intro consistent_refresh_dependency) simp_all
  have c4: "consistent (snd (refresh_section_collapse E ?L3)) b"
    using c3 by (rule refresh_section_collapse_frame(2))
  show ?thesis
    using c3 c4 by (simp add: refresh_alt and_then_fst_snd split: option.splits)
qed

lemma display_only_sym: "display_only L M \<Longrightarrow> display_only M L"
  by (simp add: display_only_def)

lemma display_only_well_formed: "display_only L M \<Longrightarrow> well_formed L \<Longrightarrow> well_formed M"
  by (rule static_eq_well_formed [OF display_only_static_eq])

lemma with_doc_None [simp]: "with_doc M None = M"
  by (simp add: with_doc_def)

lemma attached_more [simp]:
  "has_head (objs (attached L nd) b) = has_head (objs L b)"
  "sec_fields_list (objs (attached L nd) b) = sec_fields_list (objs L b)"
  "obj_section (objs (attached L nd) b) = obj_section (objs L b)"
  using display_only_attached [of L nd] by (simp_all add: display_only_def)

text \<open>
  A refresh from any state that shows the same descriptors as the result of a completed
  refresh.
\<close>

lemma refresh_again:
  assumes wf: "well_formed L" and r1: "refresh E L nd = (None, L1)"
    and dM: "display_only L1 M"
  shows "fst (refresh E M None) = None"
    and "\<And>b. df (objs (snd (refresh E M None)) b) = df (objs L1 b)"
    and "\<And>s. body_hide (objs (snd (refresh E M None)) s) =
          (if frm L \<noteq> None \<and> s \<in> set (sections L) \<and> collapsible (df (objs L s))
              \<and> has_head (objs L s)
           then body_hide (objs L1 s) else body_hide (objs M s))"
proof -
  let ?A = "attached L nd"
  let ?A2 = "attached M None"
  from refresh_completed [OF r1] obtain L3 where
    rd: "refresh_dependency E ?A = (None, L3)" and d31: "display_only L3 L1"
    by blast
  have L1: "L1 = (if frm L3 \<noteq> None then snd (refresh_section_collapse E L3) else L3)"
    and c1: "frm L3 \<noteq> None \<longrightarrow> fst (refresh_section_collapse E L3) = None"
    using r1 rd by (auto simp: refresh_alt and_then_def split: if_splits)
  have sA3: "static_eq ?A L3"
    using static_eq_refresh_dependency [of ?A E] rd by simp
  have dWA: "display_only (with_doc L nd) ?A" by (rule display_only_attached)
  have wfA: "well_formed ?A"
    using display_only_well_formed [OF dWA] wf by simp
  have dMA2: "display_only M ?A2"
    using display_only_attached [of M None] by simp
  have d3A2: "display_only L3 ?A2"
    by (rule display_only_trans [OF d31 display_only_trans [OF dM dMA2]])
  have sAA2: "static_eq ?A ?A2"
    by (rule static_eq_trans [OF sA3 display_only_static_eq [OF d3A2]])
  have wfA2: "well_formed ?A2" by (rule static_eq_well_formed [OF sAA2 wfA])
  have ok2: "fst (refresh_dependency E ?A2) = None"
    using fst_refresh_dependency_static [OF sAA2, of E] rd by simp
  define L3' where "L3' = snd (refresh_dependency E ?A2)"
  have rd2: "refresh_dependency E ?A2 = (None, L3')"
    using ok2 by (simp add: L3'_def prod_eq_iff)
  have fl: "fields_list ?A2 = fields_list ?A"
    by (rule static_eq_fields_list [OF sAA2])
  have dfA2: "df (objs ?A2 b) = df (objs L3 b)" for b
    using d3A2 by (simp add: display_only_def)
  have df3: "df (objs L3 b) =
      (if b \<in> set (fields_list ?A) then outcome E ?A b (df (objs ?A b)) else df (objs ?A b))" for b
    by (rule refresh_dependency_df [OF wfA rd])
  have df3': "df (objs L3' b) = df (objs L3 b)" for b
    unfolding refresh_dependency_df [OF wfA2 rd2] fl dfA2 static_eq_outcome [OF sAA2]
    by (simp add: df3 outcome_idem)
  have sA23': "static_eq ?A2 L3'"
    using static_eq_refresh_dependency [of ?A2 E] by (simp add: L3'_def)
  have s33': "static_eq L3 L3'"
    by (rule static_eq_trans [OF display_only_static_eq [OF d3A2] sA23'])
  have d33': "display_only L3 L3'"
    by (rule static_df_display_only [OF s33' df3'])
  have bh3': "body_hide (objs L3' s) = body_hide (objs M s)" for s
    by (simp add: L3'_def)
  have frm3: "frm L3 = frm L" "frm L3' = frm L" "sections L3 = sections L"
    "sections L3' = sections L"
    using sA3 s33' by (simp_all add: static_eq_def)
  have st3: "collapsible (df (objs L3 s)) = collapsible (df (objs L s))"
    "has_head (objs L3 s) = has_head (objs L s)" for s
    using static_eq_df [OF sA3, of s] sA3 by (simp_all add: static_eq_def)
  have r2: "refresh E M None =
      (if frm L \<noteq> None then refresh_section_collapse E L3' else (None, L3'))"
    using rd2 by (simp add: refresh_alt and_then_def frm3)
  show "fst (refresh E M None) = None"
  proof (cases "frm L = None")
    case True
    then show ?thesis by (simp add: r2)
  next
    case False
    with c1 have "fst (refresh_section_collapse_loop E (sections L) L3) = None"
      by (simp add: frm3 refresh_section_collapse_def)
    then have "fst (refresh_section_collapse_loop E (sections L) L3') = None"
      using d33'
      by (simp add: section_collapse_completes_iff display_only_computed_collapse [OF d33']
          display_only_def)
    with False show ?thesis by (simp add: r2 refresh_section_collapse_def frm3)
  qed
  then have run2: "refresh E M None = (None, snd (refresh E M None))"
    by (simp add: prod_eq_iff)
  from refresh_completed [OF run2] obtain K where
    rdK: "refresh_dependency E ?A2 = (None, K)" and dK: "display_only K (snd (refresh E M None))"
    by blast
  have K: "K = L3'" using rdK rd2 by simp
  show "df (objs (snd (refresh E M None)) b) = df (objs L1 b)" for b
    using dK d31 df3' [of b] by (simp add: K display_only_def)
  show "body_hide (objs (snd (refresh E M None)) s) =
          (if frm L \<noteq> None \<and> s \<in> set (sections L) \<and> collapsible (df (objs L s))
              \<and> has_head (objs L s)
           then body_hide (objs L1 s) else body_hide (objs M s))" for s
  proof (cases "frm L = None")
    case True
    then show ?thesis by (simp add: r2 bh3')
  next
    case False
    from False c1 have l1: "refresh_section_collapse_loop E (sections L) L3 = (None, L1)"
      using L1 by (simp add: frm3 refresh_section_collapse_def prod_eq_iff)
    from False run2 have l2: "refresh_section_collapse_loop E (sections L) L3'
        = (None, snd (refresh E M None))"
      by (simp add: r2 refresh_section_collapse_def frm3 prod_eq_iff)
    note a1 = section_collapse_loop [OF l1]
    note a2 = section_collapse_loop [OF l2]
    have st3': "collapsible (df (objs L3' s)) = collapsible (df (objs L s))"
      "has_head (objs L3' s) = has_head (objs L s)"
      using d33' st3 [of s] by (simp_all add: display_only_def)
    show ?thesis
      using a1 a2 False
      by (simp add: st3 st3' display_only_computed_collapse [OF d33'] bh3')
  qed
qed

lemma body_hide_collapse_any:
  "body_hide (objs (collapse L s h) a) =
     (if a = s \<and> has_head (objs L s)
      then (case h of None \<Rightarrow> \<not> body_hide (objs L s) | Some c \<Rightarrow> c)
      else body_hide (objs L a))"
  using fold_refresh_signature
  by (simp add: collapse_def Let_def upd_obj_def)

section \<open>Building the tree\<close>

lemma section_obj_simps [simp]:
  "kind (section_obj fr dfo) = Section"
  "df (section_obj fr dfo) = (case dfo of None \<Rightarrow> empty_df | Some d \<Rightarrow> d)"
  "sec_columns (section_obj fr dfo) = []"
  "sec_fields_list (section_obj fr dfo) = []"
  by (simp_all add: section_obj_def new_obj_def Let_def)

lemma column_obj_simps [simp]:
  "kind (column_obj s dfo) = Column"
  "df (column_obj s dfo) = (case dfo of None \<Rightarrow> empty_df | Some d \<Rightarrow> d)"
  "obj_section (column_obj s dfo) = Some s"
  by (simp_all add: column_obj_def new_obj_def)

lemma control_obj_simps [simp]:
  "kind (control_obj s c d) = Control"
  "df (control_obj s c d) = d"
  "obj_section (control_obj s c d) = Some s"
  "obj_column (control_obj s c d) = Some c"
  by (simp_all add: control_obj_def new_obj_def)

lemma make_section_eq:
  "make_section L dfo =
     L\<lparr> objs := (objs L)(next_obj L := section_obj (frm L) dfo),
        next_obj := Suc (next_obj L),
        sections := sections L @ [next_obj L],
        cur_section := Some (next_obj L),
        fields_dict := (case dfo of None \<Rightarrow> fields_dict L
                        | Some d \<Rightarrow> (fields_dict L)(prop_key (fieldname d) := Some (next_obj L))),
        fields_list := (case dfo of None \<Rightarrow> fields_list L | Some d \<Rightarrow> fields_list L @ [next_obj L]),
        cur_column := None \<rparr>"
  by (cases dfo)
    (simp_all add: make_section_def Section_init_def alloc_def section_refresh_def upd_obj_def
      section_obj_def hide_of_alt Let_def new_obj_def fun_eq_iff)

lemma make_column_eq:
  assumes "cur_section L = Some s" and "s \<noteq> next_obj L"
  shows "make_column L dfo =
     (None, L\<lparr> objs := (objs L)(next_obj L := column_obj s dfo,
                    s := (objs L s)\<lparr> sec_columns := sec_columns (objs L s) @ [next_obj L] \<rparr>),
               next_obj := Suc (next_obj L),
               cur_column := Some (next_obj L),
               fields_list := (if column_listed dfo then fields_list L @ [next_obj L]
                               else fields_list L) \<rparr>)"
  using assms
  by (simp add: make_column_def alloc_def upd_obj_def column_obj_def column_listed_def Let_def
      split: option.splits)

lemma place_field_eq:
  assumes "cur_section L = Some s" and "cur_column L = Some c" and "s \<noteq> next_obj L"
  shows "make_field L d =
     (None, L\<lparr> objs := (objs L)(next_obj L := control_obj s c d,
                    s := (objs L s)\<lparr> sec_fields_list := sec_fields_list (objs L s) @ [next_obj L] \<rparr>),
               next_obj := Suc (next_obj L),
               fields_list := fields_list L @ [next_obj L],
               fields_dict := (fields_dict L)(prop_key (fieldname d) := Some (next_obj L)) \<rparr>)"
  using assms
  by (simp add: make_field_def alloc_def upd_obj_def control_obj_def and_then_def Let_def fun_eq_iff)

lemma make_field_no_section:
  "cur_section L = None \<Longrightarrow> make_field L d = make_field (make_section L None) d"
  by (simp add: make_field_def make_section_eq)

lemma make_field_no_column:
  "cur_section L = Some s \<Longrightarrow> cur_column L = None \<Longrightarrow> s \<noteq> next_obj L \<Longrightarrow>
   make_field L d = make_field (snd (make_column L None)) d"
  by (simp add: make_field_def make_column_eq and_then_def)

lemma render_one_field: "\<not> is_break d \<Longrightarrow> render_one d L = make_field L d"
  by (simp add: render_one_def is_break_def)

lemma render_one_section:
  "fieldtype d = ''Section Break'' \<Longrightarrow> render_one d L = (None, make_section L (Some d))"
  by (simp add: render_one_def)

lemma render_one_column:
  "fieldtype d = ''Column Break'' \<Longrightarrow> render_one d L = make_column L (Some d)"
  by (simp add: render_one_def)

lemmas render_steps = render_one_field render_one_section render_one_column
  make_section_eq make_column_eq place_field_eq make_field_no_section make_field_no_column
  and_then_def

lemma grows_refl: "grows L L"
  by (simp add: grows_def)

lemma grows_trans: "grows L L1 \<Longrightarrow> grows L1 L2 \<Longrightarrow> grows L L2"
  unfolding grows_def by (auto; fastforce)

lemma grows_make_section: "grows L (make_section L dfo)"
  by (cases dfo) (simp_all add: grows_def make_section_eq)

lemma grows_make_page: "grows L (make_page L d)"
  by (simp add: grows_def make_page_def)

lemma grows_make_column: "grows L (snd (make_column L dfo))"
proof (cases "cur_section L")
  case None
  then show ?thesis by (simp add: make_column_def grows_refl)
next
  case (Some s)
  then show ?thesis
    by (auto simp: grows_def make_column_def alloc_def upd_obj_def Let_def split: option.splits)
qed

lemma grows_place:
  "cur_section L \<noteq> None \<Longrightarrow> cur_column L \<noteq> None \<Longrightarrow> grows L (snd (make_field L d))"
  by (auto simp: grows_def make_field_def alloc_def upd_obj_def and_then_def Let_def)

lemma cur_after_make_column:
  "cur_section L = Some s \<Longrightarrow>
   cur_section (snd (make_column L dfo)) = Some s \<and> cur_column (snd (make_column L dfo)) \<noteq> None"
  by (simp add: make_column_def alloc_def upd_obj_def Let_def split: option.splits)

lemma grows_make_field: "grows L (snd (make_field L d))"
proof -
  define L1 where "L1 = (if cur_section L = None then make_section L None else L)"
  have g1: "grows L L1" by (simp add: L1_def grows_make_section grows_refl)
  have s1: "cur_section L1 \<noteq> None" by (simp add: L1_def make_section_eq)
  define L2 where "L2 = (if cur_column L1 = None then snd (make_column L1 None) else L1)"
  have g2: "grows L1 L2" by (simp add: L2_def grows_make_column grows_refl)
  have c2: "cur_section L2 \<noteq> None \<and> cur_column L2 \<noteq> None"
    using s1 cur_after_make_column [of L1 _ None] by (auto simp: L2_def)
  have mf: "make_field L d = make_field L2 d"
  proof -
    have a: "make_field L d = make_field L1 d"
      by (simp add: L1_def make_field_no_section)
    have b: "make_field L1 d = make_field L2 d"
    proof (cases "cur_column L1 = None")
      case True
      from s1 obtain s where s: "cur_section L1 = Some s" by auto
      have "fst (make_column L1 None) = None"
        using s by (simp add: make_column_def Let_def)
      then have mc: "make_column L1 None = (None, L2)"
        using True by (simp add: L2_def prod_eq_iff)
      from c2 obtain s2 k2 where "cur_section L2 = Some s2" "cur_column L2 = Some k2"
        by auto
      then show ?thesis
        using True s mc by (simp add: make_field_def and_then_def)
    next
      case False
      then have "L2 = L1" unfolding L2_def by (rule if_not_P)
      then show ?thesis by (rule arg_cong [OF sym, of _ _ "\<lambda>x. make_field x d"])
    qed
    from a b show ?thesis by simp
  qed
  have "grows L2 (snd (make_field L2 d))" using c2 by (intro grows_place) simp_all
  with g1 g2 show ?thesis unfolding mf by (blast intro: grows_trans)
qed

lemma grows_render_one: "grows L (snd (render_one d L))"
  by (simp add: render_one_def grows_make_page grows_make_section grows_make_column
      grows_make_field)

lemma grows_render_each: "grows L (snd (render_each ds L))"
proof (induction ds arbitrary: L)
  case Nil
  show ?case by (simp add: grows_refl)
next
  case (Cons d ds)
  show ?case
    using grows_render_one [of L d] grows_trans [OF grows_render_one Cons.IH [of "snd (render_one d L)"]]
    by (simp add: and_then_fst_snd split: option.splits)
qed

lemma grows_first:
  assumes "grows L L1" "sections L = [a]" "a < next_obj L"
  shows "sections L1 \<noteq> []" "hd (sections L1) = a" "df (objs L1 a) = df (objs L a)"
    "a \<in> set (fields_list L1) \<longleftrightarrow> a \<in> set (fields_list L)"
  using assms unfolding grows_def by (auto; fastforce)+

lemma render_no_opening:
  assumes "no_opening_section (init_layout dt fr False fs)"
  shows "render (init_layout dt fr False fs) None =
         render_each fs (make_section (init_layout dt fr False fs) None)"
  using assms by (simp add: render_def init_layout_def no_opening_section_def)

lemma render_opening:
  assumes "\<not> no_opening_section (init_layout dt fr dash fs)"
  shows "render (init_layout dt fr dash fs) None =
         render_each (tl fs) (make_section (init_layout dt fr dash fs) (Some (hd fs)))"
  using assms
  by (cases fs; cases dash)
    (simp_all add: render_def init_layout_def no_opening_section_def Let_def
      setup_dashboard_section_def render_one_def and_then_def)

lemma render_dashboard:
  assumes "no_opening_section (init_layout dt fr True fs)"
  shows "render (init_layout dt fr True fs) None =
         render_each fs (make_section
           ((init_layout dt fr True fs)\<lparr> this_fields := bare_section_break # fs \<rparr>)
           (Some bare_section_break))"
  using assms
  by (simp add: render_def init_layout_def no_opening_section_def bare_section_break_def
      setup_dashboard_section_def render_one_def and_then_def empty_df_def)

lemma first_section_plain:
  fixes dt fr fs
  defines "L0 \<equiv> init_layout dt fr False fs"
  defines "L' \<equiv> snd (render L0 None)"
  shows "sections L' \<noteq> [] \<and> (synthesized L' (hd (sections L')) \<longleftrightarrow> no_opening_section L0)"
proof (cases "no_opening_section L0")
  case True
  define L3 where "L3 = make_section L0 None"
  have r: "L' = snd (render_each fs L3)"
    using True unfolding L'_def L0_def L3_def by (simp add: render_no_opening)
  have g: "grows L3 L'" unfolding r by (rule grows_render_each)
  have f: "sections L3 = [0]" "0 < next_obj L3" "df (objs L3 0) = empty_df"
    "0 \<notin> set (fields_list L3)"
    by (simp_all add: L3_def L0_def make_section_eq init_layout_def section_obj_def new_obj_def Let_def)
  show ?thesis
    using grows_first [OF g f(1) f(2)] f(3,4) True by (simp add: synthesized_def)
next
  case False
  define L3 where "L3 = make_section L0 (Some (hd fs))"
  have r: "L' = snd (render_each (tl fs) L3)"
    using False unfolding L'_def L0_def L3_def by (simp add: render_opening)
  have g: "grows L3 L'" unfolding r by (rule grows_render_each)
  have f: "sections L3 = [0]" "0 < next_obj L3" "0 \<in> set (fields_list L3)"
    by (simp_all add: L3_def L0_def make_section_eq init_layout_def)
  show ?thesis
    using grows_first [OF g f(1) f(2)] f(3) False by (simp add: synthesized_def)
qed

lemma first_section_dashboard:
  fixes dt fr fs
  defines "L0 \<equiv> init_layout dt fr True fs"
  defines "L' \<equiv> snd (render L0 None)"
  shows "sections L' \<noteq> [] \<and> hd (sections L') \<in> set (fields_list L')
     \<and> df (objs L' (hd (sections L'))) = (if no_opening_section L0 then bare_section_break else hd fs)"
proof (cases "no_opening_section L0")
  case True
  define L3 where "L3 = make_section (L0\<lparr> this_fields := bare_section_break # fs \<rparr>)
           (Some bare_section_break)"
  have r: "L' = snd (render_each fs L3)"
    using True unfolding L'_def L0_def L3_def by (simp add: render_dashboard)
  have g: "grows L3 L'" unfolding r by (rule grows_render_each)
  have f: "sections L3 = [0]" "0 < next_obj L3" "df (objs L3 0) = bare_section_break"
    "0 \<in> set (fields_list L3)"
    by (simp_all add: L3_def L0_def make_section_eq init_layout_def section_obj_def new_obj_def Let_def)
  show ?thesis
    using grows_first [OF g f(1) f(2)] f(3,4) True by simp
next
  case False
  define L3 where "L3 = make_section L0 (Some (hd fs))"
  have r: "L' = snd (render_each (tl fs) L3)"
    using False unfolding L'_def L0_def L3_def by (simp add: render_opening)
  have g: "grows L3 L'" unfolding r by (rule grows_render_each)
  have f: "sections L3 = [0]" "0 < next_obj L3" "df (objs L3 0) = hd fs"
    "0 \<in> set (fields_list L3)"
    by (simp_all add: L3_def L0_def make_section_eq init_layout_def section_obj_def new_obj_def Let_def)
  show ?thesis
    using grows_first [OF g f(1) f(2)] f(3,4) False by simp
qed

lemma first_column:
  fixes L :: layout and d :: docfield
  assumes "cur_section L = Some s" "cur_column L = None" "sec_columns (objs L s) = []"
    "s < next_obj L" "\<forall>a\<in>set (fields_list L). a < next_obj L"
  defines "c \<equiv> next_obj L"
  defines "L' \<equiv> snd (make_field L d)"
  shows "fst (make_field L d) = None \<and> sec_columns (objs L' s) = [c] \<and> synthesized L' c
     \<and> kind (objs L' c) = Column
     \<and> sec_fields_list (objs L' s) = sec_fields_list (objs L s) @ [Suc c]
     \<and> obj_column (objs L' (Suc c)) = Some c \<and> df (objs L' (Suc c)) = d"
proof -
  have n: "s \<noteq> next_obj L" "s \<noteq> Suc (next_obj L)" using assms(4) by auto
  have m: "next_obj L \<notin> set (fields_list L)" using assms(5) by auto
  show ?thesis
    unfolding L'_def c_def using assms(1,2,3) n m
    by (simp add: make_field_no_column make_column_eq place_field_eq column_listed_def
        synthesized_def column_obj_def new_obj_def)
qed

lemma example_tree:
  fixes dash :: bool and dt :: "string option" and fr :: "form option"
    and A B C sb cb :: docfield
  assumes "\<not> is_break A" "\<not> is_break B" "\<not> is_break C"
    "fieldtype sb = ''Section Break''" "fieldtype cb = ''Column Break''"
  defines "R \<equiv> render (init_layout dt fr dash [A, sb, B, cb, C]) None"
  shows "fst R = None"
    and "tree_shape (snd R) = [[[fieldname A]], [[fieldname B], [fieldname C]]]"
    and "sections (snd R) = [0, 3]"
    and "sec_columns (objs (snd R) 0) = [1]"
    and "synthesized (snd R) 1"
    and "if dash then df (objs (snd R) 0) = bare_section_break else synthesized (snd R) 0"
    and "df (objs (snd R) 3) = sb \<and> 3 \<in> set (fields_list (snd R))"
    and "sec_columns (objs (snd R) 3) = [4, 6]"
    and "synthesized (snd R) 4"
    and "df (objs (snd R) 6) = cb"
  using assms(1-5) unfolding R_def
  by (cases dash;
      simp add: render_def init_layout_def no_opening_section_def is_break_def
        setup_dashboard_section_def bare_section_break_def
        render_steps tree_shape_def column_controls_def synthesized_def column_listed_def
        section_obj_def column_obj_def new_obj_def Let_def)+

section \<open>Properties of the dependency evaluator\<close>

text \<open>
  C7 as stated fails on its last clause: \<^verbatim>\<open>doc[expression]\<close> reads a plain object, and a
  name the document does not hold is still found when \<^verbatim>\<open>Object.prototype\<close> provides it.
  The document here has no field \<open>constructor\<close>, and the expression \<^verbatim>\<open>"constructor"\<close>
  evaluates to \<^verbatim>\<open>true\<close>.
\<close>

theorem inherited_member_counterexample:
  "resolve_doc eval_layout = Some open_doc
   \<and> open_doc ''constructor'' = None
   \<and> evaluate_depends_on_value demo_env eval_layout (ExprStr ''constructor'') = Inr (Bool True)"
  by (simp add: evaluate_depends_on_value_def resolve_doc_def eval_layout_def init_layout_def
      open_doc_def doc_get_def object_prototype_members_def)

text \<open>
  C7, amended. With a document at hand (\<^verbatim>\<open>this.doc\<close>, or the values of a dialog),
  \<^verbatim>\<open>evaluate_depends_on_value\<close> dispatches on the shape of the expression in this order: a
  boolean is returned as it is; a function is called with the document and its result
  is the outcome; a string starting with \<^verbatim>\<open>eval:\<close> is evaluated over the bindings \<^verbatim>\<open>doc\<close>
  and \<^verbatim>\<open>parent\<close>; otherwise a string starting with \<^verbatim>\<open>fn:\<close> goes to the trigger handler of
  the form, when there is a form; any other string is read as a property of the
  document object, an array being truthy iff it is non-empty and any other value by its
  truthiness. A name the document does not hold gives \<^verbatim>\<open>false\<close> unless it is the name of
  a member inherited from \<^verbatim>\<open>Object.prototype\<close>, which gives \<^verbatim>\<open>true\<close>.
\<close>

theorem evaluate_dispatch:
  assumes "resolve_doc L = Some d"
  shows "evaluate_depends_on_value E L (ExprBool b) = Inr (Bool b)
    \<and> evaluate_depends_on_value E L (ExprFun fn) = Inr (fn d)
    \<and> (take 5 s = ''eval:'' \<longrightarrow>
         evaluate_depends_on_value E L (ExprStr s) =
           (case utils_eval E (drop 5 s) d (parent_binding L) of
              Some v \<Rightarrow> Inr (if submittable_carve_out (parent_binding L) s then Bool True else v)
            | None \<Rightarrow> if throw_raises E then Inl InvalidDependsOn else Inr Null))
    \<and> (take 5 s \<noteq> ''eval:'' \<and> take 3 s = ''fn:'' \<and> frm L = Some f \<longrightarrow>
         evaluate_depends_on_value E L (ExprStr s) =
           Inr (trigger f (drop 3 s) (doctype L) (docname L)))
    \<and> (take 5 s \<noteq> ''eval:'' \<and> (take 3 s \<noteq> ''fn:'' \<or> frm L = None) \<longrightarrow>
         evaluate_depends_on_value E L (ExprStr s) =
           Inr (Bool (case d s of
                        None \<Rightarrow> s \<in> set object_prototype_members
                      | Some (Arr xs) \<Rightarrow> xs \<noteq> []
                      | Some v \<Rightarrow> truthy v)))"
  using assms
  by (auto simp: evaluate_depends_on_value_def doc_get_def Let_def
      split: option.splits js_value.splits)

theorem evaluate_dispatch_witness:
  "resolve_doc eval_layout = Some open_doc
   \<and> evaluate_depends_on_value demo_env eval_layout (ExprBool False) = Inr (Bool False)
   \<and> evaluate_depends_on_value demo_env eval_layout (ExprFun (\<lambda>d. doc_get d ''status''))
       = Inr (Str ''Open'')
   \<and> evaluate_depends_on_value demo_env eval_layout (ExprStr status_open_expr) = Inr (Bool True)
   \<and> evaluate_depends_on_value demo_env eval_layout (ExprStr ''fn:validate'') = Inr (Bool True)
   \<and> evaluate_depends_on_value demo_env eval_layout (ExprStr ''items'') = Inr (Bool False)
   \<and> evaluate_depends_on_value demo_env eval_layout (ExprStr ''tags'') = Inr (Bool True)
   \<and> evaluate_depends_on_value demo_env eval_layout (ExprStr ''no_such_field'') = Inr (Bool False)
   \<and> evaluate_depends_on_value demo_env eval_layout (ExprStr ''toString'') = Inr (Bool True)"
proof -
  have d: "resolve_doc eval_layout = Some open_doc"
    by (simp add: resolve_doc_def eval_layout_def init_layout_def)
  have f: "frm eval_layout = Some demo_form"
    by (simp add: eval_layout_def init_layout_def)
  note disp = evaluate_dispatch [OF d, of demo_env _ _ _ demo_form]
  have 1: "evaluate_depends_on_value demo_env eval_layout (ExprBool False) = Inr (Bool False)"
    using disp by blast
  have 2: "evaluate_depends_on_value demo_env eval_layout (ExprFun (\<lambda>d. doc_get d ''status''))
       = Inr (Str ''Open'')"
    using disp [of _ "\<lambda>d. doc_get d ''status''"] by (simp add: doc_get_def open_doc_def)
  have 3: "evaluate_depends_on_value demo_env eval_layout (ExprStr status_open_expr) = Inr (Bool True)"
    using disp [of _ _ status_open_expr] f
    by (simp add: status_open_expr_def demo_env_def demo_eval_def doc_get_def open_doc_def
        parent_binding_def demo_form_def submittable_carve_out_def
        object_prototype_members_def)
  have 4: "evaluate_depends_on_value demo_env eval_layout (ExprStr ''fn:validate'') = Inr (Bool True)"
    using disp [of _ _ "''fn:validate''"] f by (simp add: demo_form_def)
  have 5: "evaluate_depends_on_value demo_env eval_layout (ExprStr ''items'') = Inr (Bool False)"
    using disp [of _ _ "''items''"] by (simp add: open_doc_def)
  have 6: "evaluate_depends_on_value demo_env eval_layout (ExprStr ''tags'') = Inr (Bool True)"
    using disp [of _ _ "''tags''"] by (simp add: open_doc_def)
  have 7: "evaluate_depends_on_value demo_env eval_layout (ExprStr ''no_such_field'') = Inr (Bool False)"
    using disp [of _ _ "''no_such_field''"]
    by (simp add: open_doc_def object_prototype_members_def)
  have 8: "evaluate_depends_on_value demo_env eval_layout (ExprStr ''toString'') = Inr (Bool True)"
    using disp [of _ _ "''toString''"]
    by (simp add: open_doc_def object_prototype_members_def)
  from d 1 2 3 4 5 6 7 8 show ?thesis by blast
qed

text \<open>
  C8 as stated fails: the carve-out looks at \<^verbatim>\<open>parent.istable\<close>, not at the document being
  evaluated. Here the document has \<^verbatim>\<open>istable\<close> set, the form's document has not, the
  expression mentions \<^verbatim>\<open>is_submittable\<close>, and the outcome is the expression's own value.
\<close>

theorem carve_out_counterexample:
  "resolve_doc eval_layout = Some open_doc
   \<and> truthy (doc_get open_doc ''istable'')
   \<and> str_includes ''eval:doc.is_submittable'' ''is_submittable''
   \<and> evaluate_depends_on_value demo_env eval_layout (ExprStr ''eval:doc.is_submittable'')
       = Inr (Bool False)"
  by (simp add: evaluate_depends_on_value_def resolve_doc_def eval_layout_def init_layout_def
      open_doc_def doc_get_def object_prototype_members_def demo_env_def demo_eval_def status_open_expr_def parent_binding_def
      demo_form_def submittable_carve_out_def)

text \<open>
  C8, amended. For an \<^verbatim>\<open>eval:\<close> expression whose text contains \<^verbatim>\<open>is_submittable\<close> and whose
  evaluation does not throw, the outcome is forced to \<^verbatim>\<open>true\<close> exactly when the \<^verbatim>\<open>parent\<close>
  binding (the document of the owning form, or the layout's own document when there is
  no form) has \<^verbatim>\<open>istable\<close> truthy; otherwise it is the value of the expression.
\<close>

theorem carve_out_parent:
  assumes "resolve_doc L = Some d"
    and "take 5 s = ''eval:''"
    and "str_includes s ''is_submittable''"
    and "utils_eval E (drop 5 s) d (parent_binding L) = Some v"
  shows "evaluate_depends_on_value E L (ExprStr s) =
     Inr (if (case parent_binding L of None \<Rightarrow> False | Some p \<Rightarrow> truthy (doc_get p ''istable''))
          then Bool True else v)"
  using assms
  by (simp add: evaluate_depends_on_value_def submittable_carve_out_def)

theorem carve_out_parent_witness:
  "evaluate_depends_on_value demo_env table_layout (ExprStr ''eval:doc.is_submittable'')
     = Inr (Bool True)
   \<and> demo_eval ''doc.is_submittable'' open_doc (Some open_doc) = Some (Bool False)"
proof -
  have d: "resolve_doc table_layout = Some open_doc"
    by (simp add: resolve_doc_def table_layout_def init_layout_def)
  have p: "parent_binding table_layout = Some open_doc"
    by (simp add: parent_binding_def table_layout_def init_layout_def)
  have e: "utils_eval demo_env (drop 5 ''eval:doc.is_submittable'') open_doc
      (parent_binding table_layout) = Some (Bool False)"
    by (simp add: demo_env_def demo_eval_def status_open_expr_def doc_get_def object_prototype_members_def open_doc_def)
  have "evaluate_depends_on_value demo_env table_layout (ExprStr ''eval:doc.is_submittable'')
      = Inr (Bool True)"
    using carve_out_parent [OF d _ _ e] by (simp add: p doc_get_def object_prototype_members_def open_doc_def)
  moreover have "demo_eval ''doc.is_submittable'' open_doc (Some open_doc) = Some (Bool False)"
    by (simp add: demo_eval_def status_open_expr_def doc_get_def object_prototype_members_def open_doc_def)
  ultimately show ?thesis by blast
qed

section \<open>Properties of sections\<close>

lemma missing_mandatory_loop_iff:
  "doc L = Some d \<Longrightarrow>
   missing_mandatory_loop L as =
     Inr (\<exists>a\<in>set as. reqd (df (objs L a))
            \<and> is_nullish (doc_get d (prop_key (fieldname (df (objs L a))))))"
  by (induction as) (auto simp: Let_def)

lemma is_nullish_iff: "is_nullish v \<longleftrightarrow> v = Undefined \<or> v = Null"
  by (cases v) auto

lemma task_sections: "sections (task_layout d) = [0, 3]"
  by (simp add: task_layout_def task_fields_def render_defs)

lemma task_fields_list: "fields_list (task_layout d) = [2, 3, 5, 6, 7]"
  by (simp add: task_layout_def task_fields_def render_defs)

lemma task_sec3: "sec_fields_list (objs (task_layout d) 3) = [5, 7]"
  by (simp add: task_layout_def task_fields_def render_defs)

lemma task_obj3:
  "df (objs (task_layout d) 3) =
     (fld ''details'' ''Section Break'')\<lparr> label := ''Details'', collapsible := True \<rparr>"
  by (simp add: task_layout_def task_fields_def render_defs)

lemma task_obj5: "df (objs (task_layout d) 5) = (fld ''priority'' ''Select'')\<lparr> reqd := True \<rparr>"
  by (simp add: task_layout_def task_fields_def render_defs)

lemma task_obj7: "df (objs (task_layout d) 7) = fld ''notes'' ''Text''"
  by (simp add: task_layout_def task_fields_def render_defs)

text \<open>
  C10. With a document bound to the layout, \<^verbatim>\<open>has_missing_mandatory\<close> of a section answers
  \<^verbatim>\<open>true\<close> exactly when one of the section's own fields is required and its document value
  is \<^verbatim>\<open>undefined\<close> or \<^verbatim>\<open>null\<close>. When every required field of the section holds the empty
  string, \<^verbatim>\<open>0\<close> or \<^verbatim>\<open>false\<close>, nothing is missing, and a section without a collapse
  condition is computed as collapsed: such a value does not force it open.
\<close>

theorem missing_mandatory_only_nullish:
  assumes "doc L = Some d"
  shows "has_missing_mandatory L s =
      Inr (\<exists>a\<in>set (sec_fields_list (objs L s)). reqd (df (objs L a))
             \<and> (doc_get d (prop_key (fieldname (df (objs L a)))) = Undefined
                \<or> doc_get d (prop_key (fieldname (df (objs L a)))) = Null))
    \<and> ((\<forall>a\<in>set (sec_fields_list (objs L s)). reqd (df (objs L a)) \<longrightarrow>
           doc_get d (prop_key (fieldname (df (objs L a)))) \<in> {Str [], Num 0, Bool False})
        \<longrightarrow> has_missing_mandatory L s = Inr False
            \<and> (\<not> expr_set (collapsible_depends_on (df (objs L s)))
                 \<longrightarrow> computed_collapse E L s = Inr True))"
proof -
  have main: "has_missing_mandatory L s =
      Inr (\<exists>a\<in>set (sec_fields_list (objs L s)). reqd (df (objs L a))
             \<and> (doc_get d (prop_key (fieldname (df (objs L a)))) = Undefined
                \<or> doc_get d (prop_key (fieldname (df (objs L a)))) = Null))"
    unfolding has_missing_mandatory_def missing_mandatory_loop_iff [OF assms] is_nullish_iff ..
  have filled: "has_missing_mandatory L s = Inr False"
    if "\<forall>a\<in>set (sec_fields_list (objs L s)). reqd (df (objs L a)) \<longrightarrow>
           doc_get d (prop_key (fieldname (df (objs L a)))) \<in> {Str [], Num 0, Bool False}"
    using that unfolding main by auto
  have "computed_collapse E L s = Inr True"
    if "has_missing_mandatory L s = Inr False"
      and "\<not> expr_set (collapsible_depends_on (df (objs L s)))"
    using that by (auto simp add: computed_collapse_def eval_if_set_def split: option.splits)
  with main filled show ?thesis by blast
qed

theorem missing_mandatory_only_nullish_witness:
  "has_missing_mandatory (task_layout [''priority'' \<mapsto> Str []]) 3 = Inr False
   \<and> computed_collapse demo_env (task_layout [''priority'' \<mapsto> Str []]) 3 = Inr True
   \<and> has_missing_mandatory (task_layout [''priority'' \<mapsto> Num 0]) 3 = Inr False
   \<and> has_missing_mandatory (task_layout [''priority'' \<mapsto> Null]) 3 = Inr True
   \<and> has_missing_mandatory (task_layout (\<lambda>k. None)) 3 = Inr True"
proof -
  have dc: "doc (task_layout d) = Some d" for d
    by (simp add: task_layout_def)
  note th = missing_mandatory_only_nullish [OF dc, of _ 3 demo_env]
  show ?thesis
    using th [of "[''priority'' \<mapsto> Str []]"] th [of "[''priority'' \<mapsto> Num 0]"]
      th [of "[''priority'' \<mapsto> Null]"] th [of "\<lambda>k. None"]
    by (simp add: task_sec3 task_obj5 task_obj7 task_obj3 fld_def empty_df_def doc_get_def object_prototype_members_def
        prop_key_def)
qed

lemma computed_collapse_True_iff:
  "computed_collapse E L s = Inr True \<longleftrightarrow>
     (case eval_if_set E L (collapsible_depends_on (df (objs L s))) of
        None \<Rightarrow> True
      | Some r \<Rightarrow> (\<exists>v. r = Inr v \<and> \<not> truthy v))
     \<and> has_missing_mandatory L s = Inr False"
  by (auto simp: computed_collapse_def split: option.splits sum.splits)

text \<open>
  C5 as stated fails for a collapsible section without a label: \<^verbatim>\<open>Section.collapse\<close>
  returns early when the section has no head, so the section is not collapsed although
  it has no collapse condition and nothing mandatory is missing.
\<close>

theorem headless_section_counterexample:
  "sections headless_layout = [0]
   \<and> collapsible (df (objs headless_layout 0))
   \<and> collapsible_depends_on (df (objs headless_layout 0)) = None
   \<and> has_missing_mandatory headless_layout 0 = Inr False
   \<and> fst (refresh_section_collapse demo_env headless_layout) = None
   \<and> \<not> is_collapsed (snd (refresh_section_collapse demo_env headless_layout)) 0"
  by (simp add: headless_layout_def headless_fields_def render_defs refresh_section_collapse_def
      computed_collapse_def eval_if_set_def has_missing_mandatory_def collapse_def is_collapsed_def)

text \<open>
  C5, amended. After a collapse recomputation that completes, a collapsible section that
  has a head is collapsed iff its \<^verbatim>\<open>collapsible_depends_on\<close> (when set) evaluates to a falsy
  value and \<^verbatim>\<open>has_missing_mandatory\<close> answers \<^verbatim>\<open>false\<close>; with a required field missing it is
  expanded whatever the condition says. A collapsible section without a head keeps its
  state. With a document bound, nothing is missing iff no direct required field has a
  null or undefined value.
\<close>

theorem section_collapse_recomputed:
  assumes "refresh_section_collapse E L = (None, L')"
    and "s \<in> set (sections L)"
    and "collapsible (df (objs L s))"
  shows "(has_head (objs L s) \<longrightarrow>
          (is_collapsed L' s \<longleftrightarrow>
            (case eval_if_set E L (collapsible_depends_on (df (objs L s))) of
               None \<Rightarrow> True
             | Some r \<Rightarrow> (\<exists>v. r = Inr v \<and> \<not> truthy v))
            \<and> has_missing_mandatory L s = Inr False)
          \<and> (has_missing_mandatory L s = Inr True \<longrightarrow> \<not> is_collapsed L' s))
    \<and> (\<not> has_head (objs L s) \<longrightarrow> is_collapsed L' s = is_collapsed L s)
    \<and> (\<forall>d. doc L = Some d \<longrightarrow>
          (has_missing_mandatory L s = Inr False \<longleftrightarrow>
             \<not> (\<exists>a\<in>set (sec_fields_list (objs L s)). reqd (df (objs L a))
                   \<and> is_nullish (doc_get d (prop_key (fieldname (df (objs L a))))))))"
proof -
  from section_collapse_loop [OF assms(1) [unfolded refresh_section_collapse_def]]
  have bh: "body_hide (objs L' s) =
      (if has_head (objs L s) then computed_collapse E L s = Inr True else body_hide (objs L s))"
    using assms(2,3) by simp
  show ?thesis
    using bh
    by (auto simp: is_collapsed_def computed_collapse_True_iff has_missing_mandatory_def
        missing_mandatory_loop_iff)
qed

lemma task_head3: "has_head (objs (task_layout d) 3)"
  by (simp add: task_layout_def task_fields_def render_defs)

lemma task_obj0: "df (objs (task_layout d) 0) = empty_df"
  by (simp add: task_layout_def task_fields_def render_defs)

lemma task_doc: "doc (task_layout d) = Some d"
  by (simp add: task_layout_def)

lemma task_computed_collapse:
  "computed_collapse demo_env (task_layout d) 3 = Inr (\<not> is_nullish (doc_get d ''priority''))"
  by (simp add: computed_collapse_def eval_if_set_def has_missing_mandatory_def task_sec3
      task_obj3 task_obj5 task_obj7 task_doc fld_def empty_df_def prop_key_def)

theorem section_collapse_recomputed_witness:
  "fst (refresh_section_collapse demo_env (task_layout [''priority'' \<mapsto> Str ''High''])) = None
   \<and> is_collapsed (snd (refresh_section_collapse demo_env (task_layout [''priority'' \<mapsto> Str ''High'']))) 3
   \<and> fst (refresh_section_collapse demo_env (task_layout (\<lambda>k. None))) = None
   \<and> \<not> is_collapsed (snd (refresh_section_collapse demo_env (task_layout (\<lambda>k. None)))) 3"
proof -
  have ok: "fst (refresh_section_collapse demo_env (task_layout d)) = None" for d
    unfolding refresh_section_collapse_def
    by (rule section_collapse_completes) (simp add: task_sections task_obj0 task_computed_collapse empty_df_def)
  have run: "refresh_section_collapse demo_env (task_layout d)
      = (None, snd (refresh_section_collapse demo_env (task_layout d)))" for d
    using ok [of d] by (simp add: prod_eq_iff)
  have s: "3 \<in> set (sections (task_layout d))" for d
    by (simp add: task_sections)
  have c: "collapsible (df (objs (task_layout d) 3))" for d
    by (simp add: task_obj3)
  note th = section_collapse_recomputed [OF run s c]
  have 1: "is_collapsed (snd (refresh_section_collapse demo_env (task_layout [''priority'' \<mapsto> Str ''High'']))) 3"
    using th [of "[''priority'' \<mapsto> Str ''High'']"] task_computed_collapse [of "[''priority'' \<mapsto> Str ''High'']"]
    by (simp add: task_head3 computed_collapse_True_iff [symmetric] doc_get_def object_prototype_members_def)
  have 2: "\<not> is_collapsed (snd (refresh_section_collapse demo_env (task_layout (\<lambda>k. None)))) 3"
    using th [of "\<lambda>k. None"] task_computed_collapse [of "\<lambda>k. None"]
    by (simp add: task_head3 computed_collapse_True_iff [symmetric] doc_get_def object_prototype_members_def)
  from ok 1 2 show ?thesis by blast
qed

section \<open>Properties of tab navigation\<close>

text \<open>
  C6 as stated fails: being writable and rendered is not enough for the forward scan,
  which also skips every field whose type is in \<^verbatim>\<open>frappe.model.no_value_type\<close>. With a
  writable, rendered button as \<open>c\<close>, a forward tab from \<open>a\<close> lands on the primary button.
\<close>

theorem tab_forward_counterexample:
  "is_visible (objs (tab_layout ''Button'') 0)
   \<and> \<not> is_visible (objs (tab_layout ''Button'') 1)
   \<and> is_visible (objs (tab_layout ''Button'') 2)
   \<and> handle_tab demo_env (tab_layout ''Button'') None ''Task'' (Some ''a'') False
       = ([PrimaryButtonFocus], Some False)"
  by (simp add: tab_layout_def tab_field_def init_layout_def new_obj_def fld_def empty_df_def
      handle_tab_def is_visible_def set_focus_def demo_env_def)

text \<open>
  C6, amended. In the top-level scope, with the fields \<open>A\<close>, \<open>B\<close>, \<open>C\<close> in this order under
  different fieldnames, \<open>A\<close> and \<open>C\<close> writable and rendered and \<open>B\<close> not: a forward tab from
  \<open>A\<close> focuses \<open>C\<close> when the type of \<open>C\<close> is neither \<^verbatim>\<open>Table\<close> nor a no-value type, opens the
  first row of \<open>C\<close> when \<open>C\<close> is a table, and otherwise finds nothing and focuses the primary
  button; a backward tab from \<open>C\<close> focuses \<open>A\<close>; a forward tab from \<open>C\<close> focuses the primary
  button. Focusing a field that is not a table means its editor if it has one, else its
  input.
\<close>

theorem tab_navigation:
  assumes top: "doctype L = Some dt"
    and fl: "map (objs L) (fields_list L) = [A, B, C]"
    and names: "fieldname (df A) \<noteq> fieldname (df B)" "fieldname (df A) \<noteq> fieldname (df C)"
      "fieldname (df B) \<noteq> fieldname (df C)"
    and A: "disp_status A = ''Write''" "wrapper_visible A"
    and B: "\<not> (disp_status B = ''Write'' \<and> wrapper_visible B)"
    and C: "disp_status C = ''Write''" "wrapper_visible C"
  shows "(fieldtype (df C) \<noteq> ''Table'' \<and> fieldtype (df C) \<notin> set (no_value_type E) \<longrightarrow>
            handle_tab E L g dt (fieldname (df A)) False = (set_focus C, Some False))
    \<and> (fieldtype (df C) = ''Table'' \<longrightarrow>
            handle_tab E L g dt (fieldname (df A)) False =
              ((if grid_rows C = 0 then [GridAddNewRow (fieldname (df C))] else [])
                 @ [GridFirstRowShowForm (fieldname (df C))], Some False))
    \<and> (fieldtype (df C) \<noteq> ''Table'' \<and> fieldtype (df C) \<in> set (no_value_type E) \<longrightarrow>
            handle_tab E L g dt (fieldname (df A)) False = ([PrimaryButtonFocus], Some False))
    \<and> handle_tab E L g dt (fieldname (df C)) True = (set_focus A, Some False)
    \<and> handle_tab E L g dt (fieldname (df C)) False = ([PrimaryButtonFocus], Some False)
    \<and> (fieldtype (df A) \<noteq> ''Table'' \<and> (has_editor A \<or> has_input A) \<longrightarrow>
          set_focus A = [if has_editor A then EditorFocus (fieldname (df A))
                         else InputFocus (fieldname (df A))])"
  using assms
  by (auto simp add: handle_tab_def Let_def is_visible_def set_focus_def)

theorem tab_navigation_witness:
  "handle_tab demo_env (tab_layout ''Data'') None ''Task'' (Some ''a'') False
     = ([InputFocus (Some ''c'')], Some False)
   \<and> handle_tab demo_env (tab_layout ''Data'') None ''Task'' (Some ''c'') True
     = ([InputFocus (Some ''a'')], Some False)
   \<and> handle_tab demo_env (tab_layout ''Data'') None ''Task'' (Some ''c'') False
     = ([PrimaryButtonFocus], Some False)"
proof -
  have top: "doctype (tab_layout ''Data'') = Some ''Task''"
    by (simp add: tab_layout_def init_layout_def)
  have fl: "map (objs (tab_layout ''Data'')) (fields_list (tab_layout ''Data''))
      = [tab_field ''a'' ''Data'' True, tab_field ''b'' ''Data'' False, tab_field ''c'' ''Data'' True]"
    by (simp add: tab_layout_def)
  have th: "(fieldtype (df (tab_field ''c'' ''Data'' True)) \<noteq> ''Table''
       \<and> fieldtype (df (tab_field ''c'' ''Data'' True)) \<notin> set (no_value_type demo_env) \<longrightarrow>
        handle_tab demo_env (tab_layout ''Data'') None ''Task''
          (fieldname (df (tab_field ''a'' ''Data'' True))) False
          = (set_focus (tab_field ''c'' ''Data'' True), Some False))
    \<and> handle_tab demo_env (tab_layout ''Data'') None ''Task''
          (fieldname (df (tab_field ''c'' ''Data'' True))) True
          = (set_focus (tab_field ''a'' ''Data'' True), Some False)
    \<and> handle_tab demo_env (tab_layout ''Data'') None ''Task''
          (fieldname (df (tab_field ''c'' ''Data'' True))) False
          = ([PrimaryButtonFocus], Some False)"
    using tab_navigation [OF top fl, of demo_env None]
    by (simp add: tab_field_def new_obj_def fld_def empty_df_def)
  then show ?thesis
    by (simp add: tab_field_def new_obj_def fld_def empty_df_def set_focus_def demo_env_def)
qed

section \<open>Properties of the dependency pass\<close>






lemma hide_control_display_only_consistent:
  "consistent L b \<Longrightarrow> hide_control (objs L b) = hide_of L (df (objs L b))"
  by (simp add: consistent_def)









section \<open>Properties of the refresh coordinator\<close>

text \<open>
  C2 as stated fails in its last part: a refresh does not keep a manual collapse. The
  section "More" is open after a refresh, the user collapses it, and a refresh with the
  same document opens it again.
\<close>

theorem manual_collapse_counterexample:
  "fst (refresh demo_env more_layout (Some open_doc)) = None
   \<and> \<not> is_collapsed (snd (refresh demo_env more_layout (Some open_doc))) 0
   \<and> is_collapsed (collapse (snd (refresh demo_env more_layout (Some open_doc))) 0 None) 0
   \<and> fst (refresh demo_env (collapse (snd (refresh demo_env more_layout (Some open_doc))) 0 None) None)
       = None
   \<and> \<not> is_collapsed
        (snd (refresh demo_env (collapse (snd (refresh demo_env more_layout (Some open_doc))) 0 None)
           None)) 0"
  by (simp add: more_layout_def more_fields_def render_defs refresh_defs open_doc_def
      is_collapsed_def)

text \<open>
  C2, amended. In a well-formed layout, after a \<^verbatim>\<open>refresh\<close> that completes, a second
  \<^verbatim>\<open>refresh\<close> with the same document completes too, gives every listed control and section
  the same visible, required and read-only state, and leaves the collapse state of every
  section as it is. A manual toggle does not survive: in a form, the next refresh puts a
  collapsible section with a head back into its computed state.
\<close>

theorem refresh_twice:
  assumes "well_formed L" and "refresh E L nd = (None, L1)"
  shows "fst (refresh E L1 None) = None
    \<and> (\<forall>b\<in>set (fields_list L). kind (objs L b) \<noteq> Column \<longrightarrow>
          field_state (snd (refresh E L1 None)) b = field_state L1 b)
    \<and> (\<forall>s. is_collapsed (snd (refresh E L1 None)) s = is_collapsed L1 s)
    \<and> (\<forall>t. frm L \<noteq> None \<and> t \<in> set (sections L) \<and> collapsible (df (objs L t))
          \<and> has_head (objs L t) \<longrightarrow>
          is_collapsed (collapse L1 t None) t = (\<not> is_collapsed L1 t)
          \<and> is_collapsed (snd (refresh E (collapse L1 t None) None)) t = is_collapsed L1 t)"
proof -
  have L1: "L1 = snd (refresh E L nd)" using assms(2) by simp
  note again = refresh_again [OF assms display_only_refl]
  have fs: "field_state (snd (refresh E L1 None)) b = field_state L1 b"
    if b: "b \<in> set (fields_list L)" and k: "kind (objs L b) \<noteq> Column" for b
  proof -
    have c1: "consistent L1 b"
      unfolding L1 using b k by (rule refresh_consistent)
    have c2: "consistent (snd (refresh E L1 None)) b"
      using b k by (intro refresh_consistent) (simp_all add: L1 refresh_keeps)
    have f: "frm (snd (refresh E L1 None)) = frm L1" by (simp add: refresh_keeps)
    show ?thesis
      using c1 c2 again(2) [of b]
      by (simp add: field_state_def consistent_def hide_of_frm [OF f])
  qed
  have hh: "has_head (objs L1 t) = has_head (objs L t)" for t
    using static_eq_refresh [of L nd E] by (simp add: L1 static_eq_def)
  have toggle: "is_collapsed (collapse L1 t None) t = (\<not> is_collapsed L1 t)
      \<and> is_collapsed (snd (refresh E (collapse L1 t None) None)) t = is_collapsed L1 t"
    if "frm L \<noteq> None" "t \<in> set (sections L)" "collapsible (df (objs L t))"
      "has_head (objs L t)" for t
    using refresh_again(3) [OF assms display_only_collapse, of t None t] that
    by (simp add: is_collapsed_def body_hide_collapse_any hh)
  show ?thesis
    using again(1) again(3) fs toggle by (simp add: is_collapsed_def)
qed

lemma more_wf: "well_formed more_layout"
  by (simp add: well_formed_def more_layout_def more_fields_def render_defs prop_key_def)

theorem refresh_twice_witness:
  "fst (refresh demo_env more_layout (Some open_doc)) = None
   \<and> fst (refresh demo_env (snd (refresh demo_env more_layout (Some open_doc))) None) = None
   \<and> field_state (snd (refresh demo_env (snd (refresh demo_env more_layout (Some open_doc))) None)) 2
       = field_state (snd (refresh demo_env more_layout (Some open_doc))) 2
   \<and> is_collapsed (snd (refresh demo_env (snd (refresh demo_env more_layout (Some open_doc))) None)) 0
       = is_collapsed (snd (refresh demo_env more_layout (Some open_doc))) 0"
proof -
  define L1 where "L1 = snd (refresh demo_env more_layout (Some open_doc))"
  have ok: "fst (refresh demo_env more_layout (Some open_doc)) = None"
    by (simp add: more_layout_def more_fields_def render_defs refresh_defs open_doc_def)
  then have r1: "refresh demo_env more_layout (Some open_doc) = (None, L1)"
    by (simp add: L1_def prod_eq_iff)
  have b: "2 \<in> set (fields_list more_layout)" "kind (objs more_layout 2) \<noteq> Column"
    by (simp_all add: more_layout_def more_fields_def render_defs)
  from refresh_twice [OF more_wf r1] b ok show ?thesis
    unfolding L1_def by blast
qed

section \<open>The tree built by \<^verbatim>\<open>render\<close>\<close>

text \<open>
  C3. Building from the descriptors \<open>[A, section-break, B, column-break, C]\<close>, with
  \<open>A\<close>, \<open>B\<close>, \<open>C\<close> plain fields, completes and gives two sections: a leading one with a
  single synthesized column holding \<open>A\<close>, and the explicit one, made from the
  section-break, with two columns, a synthesized one holding \<open>B\<close> and the one made from
  the column-break holding \<open>C\<close>. The leading section is synthesized by
  \<^verbatim>\<open>make_section()\<close>; in a layout with a dashboard it is made from the bare section-break
  that \<^verbatim>\<open>setup_dashboard_section\<close> prepends.

  In general, for any descriptor list, the first section is synthesized exactly when
  the list is empty or its first descriptor is not a section-break (with a dashboard:
  it is then made from the prepended bare section-break, and from the first descriptor
  otherwise). And when \<^verbatim>\<open>make_field\<close> meets a section that has no column yet, it makes a
  synthesized column, the first of the section, and places the field in it.
\<close>

theorem render_builds_tree:
  "(\<not> is_break A \<and> \<not> is_break B \<and> \<not> is_break C
      \<and> fieldtype sb = ''Section Break'' \<and> fieldtype cb = ''Column Break'' \<longrightarrow>
      (let T = snd (render (init_layout dt fr dash [A, sb, B, cb, C]) None) in
         fst (render (init_layout dt fr dash [A, sb, B, cb, C]) None) = None
         \<and> tree_shape T = [[[fieldname A]], [[fieldname B], [fieldname C]]]
         \<and> sections T = [0, 3]
         \<and> (if dash then df (objs T 0) = bare_section_break else synthesized T 0)
         \<and> sec_columns (objs T 0) = [1] \<and> synthesized T 1
         \<and> df (objs T 3) = sb \<and> 3 \<in> set (fields_list T)
         \<and> sec_columns (objs T 3) = [4, 6] \<and> synthesized T 4 \<and> df (objs T 6) = cb))
   \<and> (let T = snd (render (init_layout dt fr False fs) None) in
         sections T \<noteq> []
         \<and> (synthesized T (hd (sections T))
              \<longleftrightarrow> fs = [] \<or> fieldtype (hd fs) \<noteq> ''Section Break''))
   \<and> (let T = snd (render (init_layout dt fr True fs) None) in
         sections T \<noteq> [] \<and> hd (sections T) \<in> set (fields_list T)
         \<and> df (objs T (hd (sections T)))
             = (if fs = [] \<or> fieldtype (hd fs) \<noteq> ''Section Break''
                then bare_section_break else hd fs))
   \<and> (cur_section L = Some s \<and> cur_column L = None \<and> sec_columns (objs L s) = []
        \<and> s < next_obj L \<and> (\<forall>a\<in>set (fields_list L). a < next_obj L) \<longrightarrow>
        (let T = snd (make_field L d); c = next_obj L in
           fst (make_field L d) = None
           \<and> sec_columns (objs T s) = [c] \<and> synthesized T c \<and> kind (objs T c) = Column
           \<and> sec_fields_list (objs T s) = sec_fields_list (objs L s) @ [Suc c]
           \<and> obj_column (objs T (Suc c)) = Some c \<and> df (objs T (Suc c)) = d))"
proof -
  have n: "no_opening_section (init_layout dt fr b fs)
             \<longleftrightarrow> fs = [] \<or> fieldtype (hd fs) \<noteq> ''Section Break''" for b
    by (cases fs) (simp_all add: no_opening_section_def init_layout_def)
  have example: "\<not> is_break A \<and> \<not> is_break B \<and> \<not> is_break C
      \<and> fieldtype sb = ''Section Break'' \<and> fieldtype cb = ''Column Break'' \<longrightarrow>
      (let T = snd (render (init_layout dt fr dash [A, sb, B, cb, C]) None) in
         fst (render (init_layout dt fr dash [A, sb, B, cb, C]) None) = None
         \<and> tree_shape T = [[[fieldname A]], [[fieldname B], [fieldname C]]]
         \<and> sections T = [0, 3]
         \<and> (if dash then df (objs T 0) = bare_section_break else synthesized T 0)
         \<and> sec_columns (objs T 0) = [1] \<and> synthesized T 1
         \<and> df (objs T 3) = sb \<and> 3 \<in> set (fields_list T)
         \<and> sec_columns (objs T 3) = [4, 6] \<and> synthesized T 4 \<and> df (objs T 6) = cb)"
  proof (intro impI, elim conjE)
    assume h: "\<not> is_break A" "\<not> is_break B" "\<not> is_break C"
      "fieldtype sb = ''Section Break''" "fieldtype cb = ''Column Break''"
    note ex = example_tree [where dt=dt and fr=fr and dash=dash, OF h]
    show "let T = snd (render (init_layout dt fr dash [A, sb, B, cb, C]) None) in
         fst (render (init_layout dt fr dash [A, sb, B, cb, C]) None) = None
         \<and> tree_shape T = [[[fieldname A]], [[fieldname B], [fieldname C]]]
         \<and> sections T = [0, 3]
         \<and> (if dash then df (objs T 0) = bare_section_break else synthesized T 0)
         \<and> sec_columns (objs T 0) = [1] \<and> synthesized T 1
         \<and> df (objs T 3) = sb \<and> 3 \<in> set (fields_list T)
         \<and> sec_columns (objs T 3) = [4, 6] \<and> synthesized T 4 \<and> df (objs T 6) = cb"
      unfolding Let_def
      using ex(1) ex(2) ex(3) ex(6) ex(4) ex(5) ex(7) ex(8) ex(9) ex(10)
      by (intro conjI) (erule conjunct1 conjunct2 | assumption)+
  qed
  have plain: "let T = snd (render (init_layout dt fr False fs) None) in
         sections T \<noteq> []
         \<and> (synthesized T (hd (sections T))
              \<longleftrightarrow> fs = [] \<or> fieldtype (hd fs) \<noteq> ''Section Break'')"
    using first_section_plain [where dt=dt and fr=fr and fs=fs]
    unfolding n Let_def .
  have dashboard: "let T = snd (render (init_layout dt fr True fs) None) in
         sections T \<noteq> [] \<and> hd (sections T) \<in> set (fields_list T)
         \<and> df (objs T (hd (sections T)))
             = (if fs = [] \<or> fieldtype (hd fs) \<noteq> ''Section Break''
                then bare_section_break else hd fs)"
    using first_section_dashboard [where dt=dt and fr=fr and fs=fs]
    unfolding n Let_def .
  have column: "cur_section L = Some s \<and> cur_column L = None \<and> sec_columns (objs L s) = []
        \<and> s < next_obj L \<and> (\<forall>a\<in>set (fields_list L). a < next_obj L) \<longrightarrow>
        (let T = snd (make_field L d); c = next_obj L in
           fst (make_field L d) = None
           \<and> sec_columns (objs T s) = [c] \<and> synthesized T c \<and> kind (objs T c) = Column
           \<and> sec_fields_list (objs T s) = sec_fields_list (objs L s) @ [Suc c]
           \<and> obj_column (objs T (Suc c)) = Some c \<and> df (objs T (Suc c)) = d)"
  proof (intro impI, elim conjE)
    assume h: "cur_section L = Some s" "cur_column L = None" "sec_columns (objs L s) = []"
      "s < next_obj L" "\<forall>a\<in>set (fields_list L). a < next_obj L"
    show "let T = snd (make_field L d); c = next_obj L in
           fst (make_field L d) = None
           \<and> sec_columns (objs T s) = [c] \<and> synthesized T c \<and> kind (objs T c) = Column
           \<and> sec_fields_list (objs T s) = sec_fields_list (objs L s) @ [Suc c]
           \<and> obj_column (objs T (Suc c)) = Some c \<and> df (objs T (Suc c)) = d"
      unfolding Let_def by (rule first_column [OF h])
  qed
  from example plain dashboard column show ?thesis
    by (intro conjI)
qed

theorem render_builds_tree_witness:
  "fst (render (init_layout (Some ''Task'') None False task_fields) None) = None
   \<and> tree_shape (snd (render (init_layout (Some ''Task'') None False task_fields) None))
       = [[[Some ''subject'']], [[Some ''priority''], [Some ''notes'']]]
   \<and> synthesized (snd (render (init_layout (Some ''Task'') None False task_fields) None)) 0
   \<and> synthesized (snd (render (init_layout (Some ''Task'') None False task_fields) None))
       (hd (sections (snd (render (init_layout (Some ''Task'') None False task_fields) None))))
   \<and> sec_columns (objs (snd (make_field
        (make_section (init_layout (Some ''Task'') None False task_fields) None)
        (fld ''subject'' ''Data''))) 0) = [1]"
proof -
  have h: "\<not> is_break (fld ''subject'' ''Data'')"
    "\<not> is_break ((fld ''priority'' ''Select'')\<lparr> reqd := True \<rparr>)"
    "\<not> is_break (fld ''notes'' ''Text'')"
    "fieldtype ((fld ''details'' ''Section Break'')\<lparr> label := ''Details'', collapsible := True \<rparr>)
       = ''Section Break''"
    "fieldtype (fld ''cb1'' ''Column Break'') = ''Column Break''"
    by (simp_all add: is_break_def fld_def)
  have t: "task_fields \<noteq> []" "fieldtype (hd task_fields) \<noteq> ''Section Break''"
    by (simp_all add: task_fields_def fld_def)
  have f: "fieldname (fld n ty) = Some n" for n ty
    by (simp add: fld_def)
  define L where "L = make_section (init_layout (Some ''Task'') None False task_fields) None"
  have l: "cur_section L = Some 0" "cur_column L = None" "sec_columns (objs L 0) = []"
    "0 < next_obj L" "\<forall>a\<in>set (fields_list L). a < next_obj L" "next_obj L = 1"
    by (simp_all add: L_def make_section_eq init_layout_def)
  have e: "task_fields = [fld ''subject'' ''Data'',
     (fld ''details'' ''Section Break'')\<lparr> label := ''Details'', collapsible := True \<rparr>,
     (fld ''priority'' ''Select'')\<lparr> reqd := True \<rparr>,
     fld ''cb1'' ''Column Break'', fld ''notes'' ''Text'']"
    by (simp add: task_fields_def)
  from render_builds_tree [of "fld ''subject'' ''Data''"
      "(fld ''priority'' ''Select'')\<lparr> reqd := True \<rparr>" "fld ''notes'' ''Text''"
      "(fld ''details'' ''Section Break'')\<lparr> label := ''Details'', collapsible := True \<rparr>"
      "fld ''cb1'' ''Column Break''" "Some ''Task''" None False task_fields L 0
      "fld ''subject'' ''Data''"] h t l
  show ?thesis
    unfolding L_def [symmetric] e [symmetric] by (simp add: Let_def f)
qed

end
